theory Spec2Isabelle
  imports Main "HOL-Library.Sublist" "HOL-Library.Word" "HOL-Library.AList"
begin

section \<open>Paths, keys and the shard codec of \<open>H5_Nested_Store\<close>\<close>

text \<open>
  A store key such as \<open>array/0/0/4/6/7\<close> is modelled by the list of its
  \<open>/\<close>-separated segments, and an absolute file-system path likewise (the
  empty list is the root directory \<open>/\<close>). The store keeps its root in the
  field \<open>path\<close>, made absolute by the constructor.
\<close>

type_synonym path = "string list"

type_synonym bytes = "8 word list"

record store =
  path :: path
  normalize_keys :: bool
  write_direct :: bool
  container_ext :: string
  distribuited :: bool
  consolidate_depth :: int
  auto_verify_write :: bool
  mode :: string

text \<open>\<open>os.path.join(self.path, key)\<close> for a relative key.\<close>

definition join :: "path \<Rightarrow> path \<Rightarrow> path" where
  "join base key = base @ key"

text \<open>
  \<open>os.path.split\<close>: the head and the last component; the root splits
  into itself and the empty name.
\<close>

fun split_path :: "path \<Rightarrow> path \<times> string" where
  "split_path [] = ([], [])"
| "split_path (s # p) = (butlast (s # p), last (s # p))"

text \<open>
  The string concatenation \<open>f'{path}{self.container_ext}'\<close>: the extension
  lands on the last component (\<open>/\<close> followed by the extension for the root).
\<close>

fun add_ext :: "path \<Rightarrow> string \<Rightarrow> path" where
  "add_ext [] ext = [ext]"
| "add_ext (s # p) ext = butlast (s # p) @ [last (s # p) @ ext]"

text \<open>
  The loop \<open>for _ in range(self._consolidate_depth - 2)\<close> of
  \<open>_get_archive_key_name\<close>, with the number of remaining rounds.
\<close>

fun archive_loop :: "nat \<Rightarrow> path \<Rightarrow> string \<Rightarrow> path \<times> string" where
  "archive_loop 0 p key = (p, key)"
| "archive_loop (Suc n) p key =
     (case split_path p of (p', lst) \<Rightarrow> archive_loop n p' (''.'' @ lst @ key))"

definition get_archive_key_name :: "store \<Rightarrow> path \<Rightarrow> path \<times> string" where
  "get_archive_key_name st p =
     (case archive_loop (nat (consolidate_depth st - 2)) p '''' of
        (p1, key1) \<Rightarrow>
          (case split_path p1 of
             (p2, lst) \<Rightarrow> (add_ext p2 (container_ext st), lst @ key1)))"

text \<open>Segments joined by \<open>.\<close>, the first one leftmost.\<close>

fun dot_join :: "string list \<Rightarrow> string" where
  "dot_join [] = []"
| "dot_join [s] = s"
| "dot_join (s # t # ss) = s @ ''.'' @ dot_join (t # ss)"

text \<open>The number of trailing segments that the codec folds into the entry name.\<close>

definition folded :: "store \<Rightarrow> nat" where
  "folded st = Suc (nat (consolidate_depth st - 2))"

definition example_store :: store where
  "example_store =
     \<lparr>path = [''data''], normalize_keys = False, write_direct = True,
      container_ext = ''.h5'', distribuited = False, consolidate_depth = 3,
      auto_verify_write = False, mode = ''a''\<rparr>"

section \<open>The file system\<close>

text \<open>
  The store works on a directory tree through \<open>os\<close>, \<open>shutil\<close> and
  \<open>h5py\<close>. The tree is modelled as a table from absolute paths to nodes: a
  directory, a plain file with its bytes, or an HDF5 container file with its
  named datasets. The root directory always exists. The order of the table
  stands for the order in which the operating system lists directories.
\<close>

datatype errno = EEXIST | ENOENT | ENOTDIR | EISDIR | EINVAL

datatype exn = KeyError | OSError errno | ValueError

type_synonym container = "(string \<times> bytes) list"

datatype node = Dir | File bytes | H5 container

type_synonym fs = "(path \<times> node) list"

text \<open>
  What the store cannot decide by itself: whether the \<open>n\<close>-th attempt of a
  put finds the container held open by another reader (\<open>h5py.File(archive, 'a')\<close>
  then raises \<open>OSError\<close>), which bytes the storage medium retains from the
  \<open>n\<close>-th write of a file, the bytes of a container file when it is read as
  a plain file, and the token \<open>uuid.uuid4().hex\<close>.
\<close>

record env =
  h5_busy :: "nat \<Rightarrow> bool"
  medium :: "nat \<Rightarrow> bytes \<Rightarrow> bytes"
  h5_image :: "container \<Rightarrow> bytes"
  uuid_hex :: string

definition lookup :: "fs \<Rightarrow> path \<Rightarrow> node option" where
  "lookup fs p = (if p = [] then Some Dir else map_of fs p)"

definition exists_path :: "fs \<Rightarrow> path \<Rightarrow> bool" where
  "exists_path fs p = (lookup fs p \<noteq> None)"

definition isdir :: "fs \<Rightarrow> path \<Rightarrow> bool" where
  "isdir fs p = (lookup fs p = Some Dir)"

definition isfile :: "fs \<Rightarrow> path \<Rightarrow> bool" where
  "isfile fs p = (case lookup fs p of None \<Rightarrow> False | Some Dir \<Rightarrow> False | Some _ \<Rightarrow> True)"

definition fs_put :: "fs \<Rightarrow> path \<Rightarrow> node \<Rightarrow> fs" where
  "fs_put fs p n = AList.update p n fs"

definition fs_del :: "fs \<Rightarrow> path \<Rightarrow> fs" where
  "fs_del fs p = AList.delete p fs"

text \<open>\<open>shutil.rmtree\<close>: the directory and everything beneath it.\<close>

definition rmtree :: "fs \<Rightarrow> path \<Rightarrow> fs" where
  "rmtree fs p = filter (\<lambda>e. \<not> prefix p (fst e)) fs"

text \<open>\<open>os.remove\<close>: a file only.\<close>

definition os_remove :: "fs \<Rightarrow> path \<Rightarrow> exn + fs" where
  "os_remove fs p =
     (case lookup fs p of
        None \<Rightarrow> Inl (OSError ENOENT)
      | Some Dir \<Rightarrow> Inl (OSError EISDIR)
      | Some _ \<Rightarrow> Inr (fs_del fs p))"

definition mkdir :: "fs \<Rightarrow> path \<Rightarrow> exn + fs" where
  "mkdir fs p =
     (if exists_path fs p then Inl (OSError EEXIST)
      else if \<not> exists_path fs (butlast p) then Inl (OSError ENOENT)
      else if \<not> isdir fs (butlast p) then Inl (OSError ENOTDIR)
      else Inr (fs_put fs p Dir))"

text \<open>
  \<open>os.makedirs(name, exist_ok)\<close>: the missing ancestors first (a
  \<open>FileExistsError\<close> from the recursive call is passed over), then
  \<open>mkdir(name)\<close>, whose error is dropped when \<open>exist_ok\<close> holds and the
  directory is there.
\<close>

function makedirs :: "fs \<Rightarrow> path \<Rightarrow> bool \<Rightarrow> exn + fs" where
  "makedirs fs p exist_ok =
     (case (if p \<noteq> [] \<and> \<not> exists_path fs (butlast p)
            then (case makedirs fs (butlast p) exist_ok of
                    Inl e \<Rightarrow> if e = OSError EEXIST then Inr fs else Inl e
                  | Inr fs' \<Rightarrow> Inr fs')
            else Inr fs) of
        Inl e \<Rightarrow> Inl e
      | Inr fs1 \<Rightarrow>
          (case mkdir fs1 p of
             Inl e \<Rightarrow> if \<not> exist_ok \<or> \<not> isdir fs1 p then Inl e else Inr fs1
           | Inr fs2 \<Rightarrow> Inr fs2))"
  by pat_completeness auto
termination
  by (relation "measure (\<lambda>(fs, p, ok). length p)") auto

declare makedirs.simps [simp del]

text \<open>\<open>open(fn, 'wb')\<close>, \<open>f.write(a)\<close> and the close: the file holds \<open>b\<close>.\<close>

definition write_file :: "fs \<Rightarrow> path \<Rightarrow> bytes \<Rightarrow> exn + fs" where
  "write_file fs fn b =
     (if isdir fs fn then Inl (OSError EISDIR)
      else if \<not> exists_path fs (butlast fn) then Inl (OSError ENOENT)
      else if \<not> isdir fs (butlast fn) then Inl (OSError ENOTDIR)
      else Inr (fs_put fs fn (File b)))"

text \<open>
  \<open>os.replace(src, dst)\<close>, which the store calls on the temporary file it has
  just written: the file moves onto \<open>dst\<close>, replacing a file there. A
  directory as source is outside what the store does and is reported as an
  error. \<open>retry_call\<close> repeats the call on \<open>PermissionError\<close> only, which
  this file system does not raise, so it is one call.
\<close>

definition os_replace :: "fs \<Rightarrow> path \<Rightarrow> path \<Rightarrow> exn + fs" where
  "os_replace fs src dst =
     (case lookup fs src of
        None \<Rightarrow> Inl (OSError ENOENT)
      | Some Dir \<Rightarrow> Inl (OSError EINVAL)
      | Some n \<Rightarrow>
          if isdir fs dst then Inl (OSError EISDIR)
          else if \<not> exists_path fs (butlast dst) then Inl (OSError ENOENT)
          else if \<not> isdir fs (butlast dst) then Inl (OSError ENOTDIR)
          else Inr (fs_put (fs_del fs src) dst n))"

text \<open>\<open>_fromfile\<close>: the bytes of the file.\<close>

definition fromfile :: "env \<Rightarrow> fs \<Rightarrow> path \<Rightarrow> exn + bytes" where
  "fromfile env fs fn =
     (case lookup fs fn of
        None \<Rightarrow> Inl (OSError ENOENT)
      | Some Dir \<Rightarrow> Inl (OSError EISDIR)
      | Some (File b) \<Rightarrow> Inr b
      | Some (H5 c) \<Rightarrow> Inr (h5_image env c))"

text \<open>
  \<open>_tofile\<close>: \<open>while True\<close>, write the file, and leave the loop when
  verification is off or the bytes read back are the bytes written. \<open>n\<close>
  counts the writes. An error of \<open>open\<close> leaves the loop as an exception.
\<close>

partial_function (option) tofile ::
    "store \<Rightarrow> env \<Rightarrow> bytes \<Rightarrow> path \<Rightarrow> fs \<Rightarrow> nat \<Rightarrow> ((exn + unit) \<times> fs) option" where
  "tofile st env a fn fs n =
     (case write_file fs fn (medium env n a) of
        Inl e \<Rightarrow> Some (Inl e, fs)
      | Inr fs1 \<Rightarrow>
          if auto_verify_write st
          then (if fromfile env fs1 fn = Inr a then Some (Inr (), fs1)
                else tofile st env a fn fs1 (Suc n))
          else Some (Inr (), fs1))"

section \<open>Containers\<close>

text \<open>
  \<open>h5py.File(archive, 'a')\<close>: an existing container is opened unless it is
  busy, a missing one is created in its directory, anything else is an
  \<open>OSError\<close>. \<open>h5py.File(archive, 'r')\<close> opens an existing container.
\<close>

definition h5_open_append :: "fs \<Rightarrow> bool \<Rightarrow> path \<Rightarrow> exn + container" where
  "h5_open_append fs busy archive =
     (case lookup fs archive of
        None \<Rightarrow> if isdir fs (butlast archive) then Inr [] else Inl (OSError ENOENT)
      | Some Dir \<Rightarrow> Inl (OSError EISDIR)
      | Some (File b) \<Rightarrow> Inl (OSError EINVAL)
      | Some (H5 c) \<Rightarrow> if busy then Inl (OSError EINVAL) else Inr c)"

definition h5_open_read :: "fs \<Rightarrow> path \<Rightarrow> exn + container" where
  "h5_open_read fs archive =
     (case lookup fs archive of
        None \<Rightarrow> Inl (OSError ENOENT)
      | Some Dir \<Rightarrow> Inl (OSError EISDIR)
      | Some (File b) \<Rightarrow> Inl (OSError EINVAL)
      | Some (H5 c) \<Rightarrow> Inr c)"

text \<open>
  \<open>f.create_dataset(key, data=np.void(value))\<close>: with a value of no bytes
  the call raises \<open>ValueError\<close>; otherwise the container has the new entry. In the store
  \<open>if key in f: del f[key]\<close> always comes first, so the name is free.
\<close>

definition create_dataset :: "container \<Rightarrow> string \<Rightarrow> bytes \<Rightarrow> exn + container" where
  "create_dataset c key v = (if v = [] then Inl ValueError else Inr (c @ [(key, v)]))"

definition fromh5 :: "fs \<Rightarrow> path \<Rightarrow> string \<Rightarrow> exn + bytes" where
  "fromh5 fs archive key =
     (case h5_open_read fs archive of
        Inl e \<Rightarrow> Inl e
      | Inr c \<Rightarrow> (case map_of c key of None \<Rightarrow> Inl KeyError | Some b \<Rightarrow> Inr b))"

text \<open>
  The \<open>with h5py.File(archive, 'a')\<close> block of \<open>_toh5\<close>: the entry of the
  name is deleted and created anew. When \<open>create_dataset\<close> raises, the
  container is closed with the entry deleted.
\<close>

definition h5_write_entry ::
    "fs \<Rightarrow> bool \<Rightarrow> path \<Rightarrow> string \<Rightarrow> bytes \<Rightarrow> (exn + unit) \<times> fs" where
  "h5_write_entry fs busy archive key v =
     (case h5_open_append fs busy archive of
        Inl e \<Rightarrow> (Inl e, fs)
      | Inr f \<Rightarrow>
          (case create_dataset (AList.delete key f) key v of
             Inl e \<Rightarrow> (Inl e, fs_put fs archive (H5 (AList.delete key f)))
           | Inr f' \<Rightarrow> (Inr (), fs_put fs archive (H5 f'))))"

definition is_OSError :: "exn \<Rightarrow> bool" where
  "is_OSError e = (case e of OSError n \<Rightarrow> True | KeyError \<Rightarrow> False | ValueError \<Rightarrow> False)"

text \<open>
  One round of the loop of \<open>_toh5\<close> up to the verification: the block
  under \<open>try\<close>, with \<open>except OSError: pass\<close>. Any other exception leaves
  \<open>_toh5\<close>.
\<close>

definition toh5_attempt ::
    "env \<Rightarrow> path \<Rightarrow> string \<Rightarrow> bytes \<Rightarrow> fs \<Rightarrow> nat \<Rightarrow> (exn + unit) \<times> fs" where
  "toh5_attempt env archive key v fs n =
     (case h5_write_entry fs (h5_busy env n) archive key v of
        (Inl e, fs') \<Rightarrow> if is_OSError e then (Inr (), fs') else (Inl e, fs')
      | (Inr u, fs') \<Rightarrow> (Inr (), fs'))"

text \<open>
  \<open>_toh5\<close>: \<open>while True\<close>, attempt the put, and leave the loop when
  verification is off or \<open>_fromh5\<close> returns the value; a \<open>KeyError\<close> of
  \<open>_fromh5\<close> and a different value start the next round, any other
  exception of \<open>_fromh5\<close> leaves the function.
\<close>

partial_function (option) toh5 ::
    "store \<Rightarrow> env \<Rightarrow> path \<Rightarrow> string \<Rightarrow> bytes \<Rightarrow> fs \<Rightarrow> nat \<Rightarrow> ((exn + unit) \<times> fs) option" where
  "toh5 st env archive key v fs n =
     (case toh5_attempt env archive key v fs n of
        (Inl e, fs1) \<Rightarrow> Some (Inl e, fs1)
      | (Inr u, fs1) \<Rightarrow>
          if auto_verify_write st
          then (case fromh5 fs1 archive key of
                  Inr b \<Rightarrow>
                    if b = v then Some (Inr (), fs1)
                    else toh5 st env archive key v fs1 (Suc n)
                | Inl e \<Rightarrow>
                    if e = KeyError then toh5 st env archive key v fs1 (Suc n)
                    else Some (Inl e, fs1))
          else Some (Inr (), fs1))"

section \<open>The store facade\<close>

text \<open>
  What \<open>__init__\<close> establishes for \<open>container_ext\<close>: it starts with a dot.
\<close>

definition ext_normalized :: "store \<Rightarrow> bool" where
  "ext_normalized st = (case container_ext st of [] \<Rightarrow> False | c # e \<Rightarrow> c = CHR ''.'')"

text \<open>\<open>key.lower()\<close> on the letters \<open>A\<close> to \<open>Z\<close>.\<close>

definition lower_char :: "char \<Rightarrow> char" where
  "lower_char c =
     (if 65 \<le> (of_char c :: nat) \<and> (of_char c :: nat) \<le> 90
      then char_of ((of_char c :: nat) + 32) else c)"

definition normalize_key :: "store \<Rightarrow> path \<Rightarrow> path" where
  "normalize_key st key = (if normalize_keys st then map (map lower_char) key else key)"

text \<open>\<open>'.' in key\<close>: a dot anywhere in the key.\<close>

definition dot_in :: "path \<Rightarrow> bool" where
  "dot_in key = (\<exists>s \<in> set key. CHR ''.'' \<in> set s)"

text \<open>
  \<open>_read_direct_to_h5\<close>: with or without the lock, \<open>_fromh5\<close>, and its
  exception raised again.
\<close>

definition read_direct_to_h5 :: "store \<Rightarrow> fs \<Rightarrow> path \<Rightarrow> string \<Rightarrow> exn + bytes" where
  "read_direct_to_h5 st fs archive key =
     (if distribuited st then fromh5 fs archive key else fromh5 fs archive key)"

text \<open>\<open>__getitem__\<close>: every exception of the two reads is passed over.\<close>

definition getitem :: "store \<Rightarrow> env \<Rightarrow> fs \<Rightarrow> path \<Rightarrow> exn + bytes" where
  "getitem st env fs key0 =
     (let key = normalize_key st key0;
          filepath = join (path st) key;
          raw = (if isfile fs filepath then fromfile env fs filepath else Inl KeyError)
      in case raw of
           Inr b \<Rightarrow> Inr b
         | Inl _ \<Rightarrow>
             (case get_archive_key_name st filepath of
                (archive, h_key) \<Rightarrow>
                  if isfile fs archive
                  then (case (if write_direct st \<and> mode st \<noteq> ''r''
                              then read_direct_to_h5 st fs archive h_key
                              else fromh5 fs archive h_key) of
                          Inr b \<Rightarrow> Inr b
                        | Inl _ \<Rightarrow> Inl KeyError)
                  else Inl KeyError))"

text \<open>
  \<open>_write_direct_to_h5\<close>. Under the distributed lock every exception of
  \<open>_toh5\<close> is printed and passed over.
\<close>

definition write_direct_to_h5 ::
    "store \<Rightarrow> env \<Rightarrow> fs \<Rightarrow> path \<Rightarrow> bytes \<Rightarrow> ((exn + unit) \<times> fs) option" where
  "write_direct_to_h5 st env fs file_path v =
     (case get_archive_key_name st file_path of
        (archive, key) \<Rightarrow>
          (case makedirs fs (fst (split_path archive)) True of
             Inl e \<Rightarrow> Some (Inl e, fs)
           | Inr fs1 \<Rightarrow>
               if distribuited st
               then (case toh5 st env archive key v fs1 0 of
                       None \<Rightarrow> None
                     | Some (r, fs2) \<Rightarrow> Some (Inr (), fs2))
               else toh5 st env archive key v fs1 0))"

text \<open>
  The \<open>finally\<close> block of \<open>__setitem__\<close>: the temporary file is removed
  when it is still there, and an exception of the removal replaces the
  outcome.
\<close>

definition finally_cleanup :: "(exn + unit) \<times> fs \<Rightarrow> path \<Rightarrow> (exn + unit) \<times> fs" where
  "finally_cleanup out temp_path =
     (case out of
        (r, fs) \<Rightarrow>
          if exists_path fs temp_path
          then (case os_remove fs temp_path of
                  Inl e \<Rightarrow> (Inl e, fs)
                | Inr fs' \<Rightarrow> (r, fs'))
          else (r, fs))"

text \<open>
  The path \<open>temp_path\<close> that \<open>__setitem__\<close> computes for a destination:
  beside it, its name followed by the token and \<open>.partial\<close>.
\<close>

definition temp_path_of :: "env \<Rightarrow> path \<Rightarrow> path" where
  "temp_path_of env file_path =
     (case split_path file_path of
        (dir_path, file_name) \<Rightarrow>
          join dir_path [file_name @ ''.'' @ uuid_hex env @ ''.partial''])"

text \<open>
  The part of \<open>__setitem__\<close> that mimics a nested directory store: a
  directory in the way is removed, the containing directory is made, the
  value is written to a temporary file and moved into place.
\<close>

definition setitem_file ::
    "store \<Rightarrow> env \<Rightarrow> fs \<Rightarrow> path \<Rightarrow> bytes \<Rightarrow> ((exn + unit) \<times> fs) option" where
  "setitem_file st env fs file_path v =
     (let fs1 = (if isdir fs file_path then rmtree fs file_path else fs)
      in case split_path file_path of
           (dir_path, file_name) \<Rightarrow>
             if isfile fs1 dir_path then Some (Inl KeyError, fs1)
             else
               (case (if \<not> exists_path fs1 dir_path
                      then (case makedirs fs1 dir_path False of
                              Inl e \<Rightarrow> if e = OSError EEXIST then Inr fs1 else Inl KeyError
                            | Inr fs' \<Rightarrow> Inr fs')
                      else Inr fs1) of
                  Inl e \<Rightarrow> Some (Inl e, fs1)
                | Inr fs2 \<Rightarrow>
                    (let temp_name = file_name @ ''.'' @ uuid_hex env @ ''.partial'';
                         temp_path = join dir_path [temp_name]
                     in case tofile st env v temp_path fs2 0 of
                          None \<Rightarrow> None
                        | Some (Inl e, fs3) \<Rightarrow> Some (finally_cleanup (Inl e, fs3) temp_path)
                        | Some (Inr u, fs3) \<Rightarrow>
                            (case os_replace fs3 temp_path file_path of
                               Inl e \<Rightarrow> Some (finally_cleanup (Inl e, fs3) temp_path)
                             | Inr fs4 \<Rightarrow> Some (finally_cleanup (Inr (), fs4) temp_path)))))"

text \<open>\<open>__setitem__\<close>.\<close>

definition setitem ::
    "store \<Rightarrow> env \<Rightarrow> fs \<Rightarrow> path \<Rightarrow> bytes \<Rightarrow> ((exn + unit) \<times> fs) option" where
  "setitem st env fs key0 v =
     (let key = normalize_key st key0;
          file_path = join (path st) key
      in if write_direct st \<and> \<not> dot_in key \<and> \<not> isfile fs file_path
         then write_direct_to_h5 st env fs file_path v
         else setitem_file st env fs file_path v)"

text \<open>
  The first \<open>h5py.File(archive, 'a')\<close> of a put succeeds: the container is
  missing or is a container that is not busy.
\<close>

definition can_append :: "env \<Rightarrow> fs \<Rightarrow> path \<Rightarrow> bool" where
  "can_append env fs archive =
     (case lookup fs archive of
        None \<Rightarrow> True
      | Some Dir \<Rightarrow> False
      | Some (File b) \<Rightarrow> False
      | Some (H5 c) \<Rightarrow> \<not> h5_busy env 0)"

text \<open>
  The write of \<open>__setitem__\<close> is not lost: for a key written as a file, the
  medium keeps the bytes of the first write or the write is verified; for a
  key written into its container, the first put opens the container (and
  has bytes to store when the put runs under the lock, where the
  \<open>ValueError\<close> of a put of no bytes is passed over), or the put is verified
  and its exceptions are not passed over under the lock.
\<close>

definition takes_effect :: "store \<Rightarrow> env \<Rightarrow> fs \<Rightarrow> path \<Rightarrow> bytes \<Rightarrow> bool" where
  "takes_effect st env fs key0 v =
     (let key = normalize_key st key0;
          file_path = join (path st) key
      in if write_direct st \<and> \<not> dot_in key \<and> \<not> isfile fs file_path
         then (can_append env fs (fst (get_archive_key_name st file_path)) \<and>
               (v \<noteq> [] \<or> \<not> distribuited st)) \<or>
              (auto_verify_write st \<and> \<not> distribuited st)
         else medium env 0 v = v \<or> auto_verify_write st)"

text \<open>
  The test in the words of the comment above the guard of \<open>__setitem__\<close>
  (\<open>If '.' is in the file name assume it is a metadata file\<close>): a dot in
  the last segment of the key.
\<close>

definition dot_in_file_name :: "path \<Rightarrow> bool" where
  "dot_in_file_name key = (case key of [] \<Rightarrow> False | s # ss \<Rightarrow> CHR ''.'' \<in> set (last key))"

text \<open>
  The test for a metadata key in the words of the specification: the final
  segment of the key starts with a dot. It is here to be compared with
  \<open>dot_in\<close>, the test of the code.
\<close>

definition final_segment_dotted :: "path \<Rightarrow> bool" where
  "final_segment_dotted key =
     (case key of
        [] \<Rightarrow> False
      | s # ss \<Rightarrow> (case last key of [] \<Rightarrow> False | c # cs \<Rightarrow> c = CHR ''.''))"

text \<open>
  \<open>__delitem__\<close>: the file or the directory at the path goes, then the
  entry of the container when the container file exists, and \<open>KeyError\<close>
  when it does not.
\<close>

definition delitem :: "store \<Rightarrow> fs \<Rightarrow> path \<Rightarrow> (exn + unit) \<times> fs" where
  "delitem st fs key0 =
     (let key = normalize_key st key0;
          p = join (path st) key;
          fs1 = (if isfile fs p then fs_del fs p
                 else if isdir fs p then rmtree fs p
                 else fs)
      in case get_archive_key_name st p of
           (archive, h_key) \<Rightarrow>
             if isfile fs1 archive
             then (case h5_open_append fs1 False archive of
                     Inl e \<Rightarrow> (Inl e, fs1)
                   | Inr c \<Rightarrow> (Inr (), fs_put fs1 archive (H5 (AList.delete h_key c))))
             else (Inl KeyError, fs1))"

text \<open>\<open>__contains__\<close> with \<open>_dset_in\<close>.\<close>

definition contains :: "store \<Rightarrow> fs \<Rightarrow> path \<Rightarrow> exn + bool" where
  "contains st fs key0 =
     (let key = normalize_key st key0;
          file_path = join (path st) key
      in if isfile fs file_path then Inr True
         else (case get_archive_key_name st file_path of
                 (archive, h_key) \<Rightarrow>
                   if isfile fs archive
                   then (case h5_open_read fs archive of
                           Inl e \<Rightarrow> Inl e
                         | Inr c \<Rightarrow> Inr (map_of c h_key \<noteq> None))
                   else Inr False))"

section \<open>Sizes\<close>

text \<open>
  \<open>zarr.util.normalize_storage_path\<close> on the segments of a store path
  (\<open>None\<close> and the empty string are the empty list): empty segments go, and
  a segment \<open>.\<close> or \<open>..\<close> is a \<open>ValueError\<close>.
\<close>

definition normalize_storage_path :: "path \<Rightarrow> exn + path" where
  "normalize_storage_path p =
     (if \<exists>s \<in> set p. s = ''.'' \<or> s = ''..'' then Inl ValueError
      else Inr (filter (\<lambda>s. s \<noteq> []) p))"

text \<open>\<open>scandir(d)\<close>: the paths of the entries of the directory \<open>d\<close>.\<close>

definition scandir :: "fs \<Rightarrow> path \<Rightarrow> path list" where
  "scandir fs d = filter (\<lambda>q. q \<noteq> [] \<and> butlast q = d) (map fst (AList.clearjunk fs))"

text \<open>
  \<open>os.path.getsize\<close> and \<open>st_size\<close>: the number of bytes of a file; a
  container file has the size of its image.
\<close>

definition st_size :: "env \<Rightarrow> fs \<Rightarrow> path \<Rightarrow> nat" where
  "st_size env fs q =
     (case lookup fs q of
        Some (File b) \<Rightarrow> length b
      | Some (H5 c) \<Rightarrow> length (h5_image env c)
      | _ \<Rightarrow> 0)"

text \<open>\<open>getsize\<close>.\<close>

definition getsize :: "store \<Rightarrow> env \<Rightarrow> fs \<Rightarrow> path \<Rightarrow> exn + nat" where
  "getsize st env fs p =
     (case normalize_storage_path p of
        Inl e \<Rightarrow> Inl e
      | Inr store_path \<Rightarrow>
          (let fs_path = (if store_path \<noteq> [] then join (path st) store_path else path st)
           in if isfile fs fs_path then Inr (st_size env fs fs_path)
              else if isdir fs fs_path
              then Inr (sum_list (map (st_size env fs) (filter (isfile fs) (scandir fs fs_path))))
              else Inr 0))"

text \<open>
  The size of a directory in the words of the specification: the sum of the
  sizes of all the files beneath it, at any depth. It is here to be compared
  with what \<open>getsize\<close> returns.
\<close>

definition recursive_size :: "env \<Rightarrow> fs \<Rightarrow> path \<Rightarrow> nat" where
  "recursive_size env fs d =
     sum_list (map (st_size env fs)
       (filter (\<lambda>q. strict_prefix d q \<and> isfile fs q) (map fst (AList.clearjunk fs))))"

section \<open>Consolidation and enumeration\<close>

text \<open>
  \<open>os.walk(d)\<close>: the directories and the files beneath \<open>d\<close>, in the
  order of the table; with \<open>topdown=False\<close> a directory comes after the
  directories inside it.
\<close>

definition walk_files :: "fs \<Rightarrow> path \<Rightarrow> path list" where
  "walk_files fs d =
     (if isdir fs d
      then filter (\<lambda>q. strict_prefix d q \<and> isfile fs q) (map fst (AList.clearjunk fs))
      else [])"

definition walk_dirs :: "fs \<Rightarrow> path \<Rightarrow> path list" where
  "walk_dirs fs d =
     (if isdir fs d
      then filter (\<lambda>q. strict_prefix d q \<and> isdir fs q) (map fst (AList.clearjunk fs))
      else [])"

definition walk_dirs_bottom_up :: "fs \<Rightarrow> path \<Rightarrow> path list" where
  "walk_dirs_bottom_up fs d = rev (sort_key length (walk_dirs fs d))"

text \<open>The property \<open>_arrays\<close>: the roots of the arrays of the store.\<close>

definition arrays :: "store \<Rightarrow> fs \<Rightarrow> path list" where
  "arrays st fs =
     (if isfile fs (join (path st) [''.zarray'']) then [path st]
      else filter (\<lambda>d. exists_path fs (join d [''.zarray'']))
             (walk_dirs_bottom_up fs (path st)))"

text \<open>
  \<open>path_depth\<close>: the difference of the numbers of separators of two
  absolute paths; the root \<open>/\<close> has one.
\<close>

definition sep_count :: "path \<Rightarrow> int" where
  "sep_count p = (if p = [] then 1 else int (length p))"

definition path_depth :: "path \<Rightarrow> path \<Rightarrow> int" where
  "path_depth p compare_path = sep_count p - sep_count compare_path"

text \<open>\<open>'.z' in f\<close>.\<close>

fun dot_z_in :: "string \<Rightarrow> bool" where
  "dot_z_in (a # b # s) = ((a = CHR ''.'' \<and> b = CHR ''z'') \<or> dot_z_in (b # s))"
| "dot_z_in s = False"

text \<open>
  \<open>get_unique_archive_locations\<close>: the container paths of the files that
  lie deeper than the depth beneath an array root and have no \<open>.z\<close> in
  their name, each once, in the order of their first file.
\<close>

definition get_unique_archive_locations :: "store \<Rightarrow> fs \<Rightarrow> path list" where
  "get_unique_archive_locations st fs =
     rev (remdups (rev
       (concat (map (\<lambda>a.
          map (\<lambda>filepath. fst (get_archive_key_name st filepath))
            (filter (\<lambda>filepath. \<not> dot_z_in (last filepath) \<and>
                                 path_depth filepath a > consolidate_depth st)
               (walk_files fs a)))
          (arrays st fs)))))"

text \<open>
  The loop of \<open>_migrate_path_to_archive\<close> over the files: for each file
  the entry of its name is deleted, the bytes of the file become the new
  entry and the file is removed. When \<open>create_dataset\<close> raises (a file of
  no bytes), the loop ends there: the entry is deleted, the file stays, and
  what was moved before stays moved.
\<close>

fun migrate_files ::
    "store \<Rightarrow> env \<Rightarrow> path list \<Rightarrow> container \<Rightarrow> fs \<Rightarrow> (exn + unit) \<times> container \<times> fs" where
  "migrate_files st env [] h fs = (Inr (), h, fs)"
| "migrate_files st env (filepath # files) h fs =
     (case fromfile env fs filepath of
        Inl e \<Rightarrow> (Inl e, h, fs)
      | Inr b \<Rightarrow>
          (case create_dataset (AList.delete (snd (get_archive_key_name st filepath)) h)
                  (snd (get_archive_key_name st filepath)) b of
             Inl e \<Rightarrow> (Inl e, AList.delete (snd (get_archive_key_name st filepath)) h, fs)
           | Inr h' \<Rightarrow>
               (case os_remove fs filepath of
                  Inl e \<Rightarrow> (Inl e, h', fs)
                | Inr fs' \<Rightarrow> migrate_files st env files h' fs')))"

text \<open>
  \<open>_migrate_path_to_archive\<close>: the container is opened (or made), the
  files beneath \<open>path_name\<close> are moved into it, and it is closed with what
  it holds, also when the loop ends with an exception.
\<close>

definition migrate_path_to_archive ::
    "store \<Rightarrow> env \<Rightarrow> fs \<Rightarrow> path \<Rightarrow> path \<Rightarrow> (exn + unit) \<times> fs" where
  "migrate_path_to_archive st env fs archive path_name =
     (case h5_open_append fs False archive of
        Inl e \<Rightarrow> (Inl e, fs)
      | Inr h \<Rightarrow>
          (case migrate_files st env (walk_files fs path_name) h fs of
             (r, h', fs') \<Rightarrow> (r, fs_put fs' archive (H5 h'))))"

text \<open>
  \<open>os.path.splitext\<close> on a name: the extension starts at the last dot,
  unless only dots come before it.
\<close>

definition splitext :: "string \<Rightarrow> string \<times> string" where
  "splitext s =
     (let ext = rev (takeWhile (\<lambda>c. c \<noteq> CHR ''.'') (rev s));
          root = take (length s - length ext - 1) s
      in if CHR ''.'' \<in> set s \<and> (\<exists>c \<in> set root. c \<noteq> CHR ''.'')
         then (root, drop (length root) s)
         else (s, ''''))"

definition splitext_path :: "path \<Rightarrow> path" where
  "splitext_path p = (if p = [] then [] else butlast p @ [fst (splitext (last p))])"

text \<open>
  The tasks of \<open>consolidate\<close>, one container after the other; an exception
  of a task ends the run.
\<close>

fun migrate_all :: "store \<Rightarrow> env \<Rightarrow> path list \<Rightarrow> fs \<Rightarrow> (exn + unit) \<times> fs" where
  "migrate_all st env [] fs = (Inr (), fs)"
| "migrate_all st env (unique # rest) fs =
     (case migrate_path_to_archive st env fs unique (splitext_path unique) of
        (Inl e, fs') \<Rightarrow> (Inl e, fs')
      | (Inr u, fs') \<Rightarrow> migrate_all st env rest fs')"

text \<open>The last loop of \<open>consolidate\<close>: empty directories go, the deepest first.\<close>

fun clean_dirs :: "path list \<Rightarrow> fs \<Rightarrow> fs" where
  "clean_dirs [] fs = fs"
| "clean_dirs (filepath # rest) fs =
     clean_dirs rest
       (if exists_path fs filepath \<and> scandir fs filepath = [] then rmtree fs filepath else fs)"

fun clean_arrays :: "path list \<Rightarrow> fs \<Rightarrow> fs" where
  "clean_arrays [] fs = fs"
| "clean_arrays (a # rest) fs = clean_arrays rest (clean_dirs (walk_dirs_bottom_up fs a) fs)"

text \<open>
  \<open>consolidate\<close>. The containers are collected first and the tasks run
  after that, as in the branch that delays them; the empty directories are
  removed when no task raised.
\<close>

definition consolidate :: "store \<Rightarrow> env \<Rightarrow> fs \<Rightarrow> (exn + unit) \<times> fs" where
  "consolidate st env fs =
     (case migrate_all st env (get_unique_archive_locations st fs) fs of
        (Inl e, fs') \<Rightarrow> (Inl e, fs')
      | (Inr u, fs') \<Rightarrow> (Inr (), clean_arrays (arrays st fs') fs'))"

text \<open>\<open>x.replace('.', os.path.sep)\<close>, as segments.\<close>

fun split_dots :: "string \<Rightarrow> string list" where
  "split_dots [] = [[]]"
| "split_dots (c # s) =
     (if c = CHR ''.'' then [] # split_dots s
      else (case split_dots s of [] \<Rightarrow> [[c]] | w # ws \<Rightarrow> (c # w) # ws))"

text \<open>
  \<open>keys\<close> with \<open>_keys_fast\<close>: a file in the root of the store is a key; a
  file deeper down with the container extension gives one key for each of
  its entries, and any other file is a key.
\<close>

definition keys_of_file :: "store \<Rightarrow> fs \<Rightarrow> path \<Rightarrow> exn + path list" where
  "keys_of_file st fs filepath =
     (let rel = drop (length (path st)) filepath;
          dirpath = butlast rel;
          f = last rel
      in if dirpath = [] then Inr [[f]]
         else (case splitext f of
                 (basefile, ext) \<Rightarrow>
                   if ext = container_ext st
                   then (case h5_open_read fs filepath of
                           Inl e \<Rightarrow> Inl e
                         | Inr c \<Rightarrow>
                             Inr (map (\<lambda>x. dirpath @ [basefile] @ split_dots x) (map fst c)))
                   else Inr [rel]))"

fun keys_of_files :: "store \<Rightarrow> fs \<Rightarrow> path list \<Rightarrow> exn + path list" where
  "keys_of_files st fs [] = Inr []"
| "keys_of_files st fs (filepath # files) =
     (case keys_of_file st fs filepath of
        Inl e \<Rightarrow> Inl e
      | Inr ks \<Rightarrow>
          (case keys_of_files st fs files of
             Inl e \<Rightarrow> Inl e
           | Inr ks' \<Rightarrow> Inr (ks @ ks')))"

definition keys :: "store \<Rightarrow> fs \<Rightarrow> exn + path list" where
  "keys st fs =
     (if exists_path fs (path st) then keys_of_files st fs (walk_files fs (path st)) else Inr [])"

section \<open>Example stores and trees\<close>

text \<open>A faithful medium, no container ever busy.\<close>

definition quiet_env :: env where
  "quiet_env =
     \<lparr>h5_busy = (\<lambda>n. False), medium = (\<lambda>n b. b),
      h5_image = (\<lambda>c. concat (map snd c)), uuid_hex = ''0f''\<rparr>"

text \<open>
  A tree where the chunk \<open>arr/0/4/6/7\<close> is both a file and an entry of its
  container, and the same tree without the file.
\<close>

definition fs_both :: fs where
  "fs_both =
     [([''data''], Dir), ([''data'', ''arr''], Dir), ([''data'', ''arr'', ''0''], Dir),
      ([''data'', ''arr'', ''0'', ''4.h5''], H5 [(''6.7'', [1, 2])]),
      ([''data'', ''arr'', ''0'', ''4''], Dir), ([''data'', ''arr'', ''0'', ''4'', ''6''], Dir),
      ([''data'', ''arr'', ''0'', ''4'', ''6'', ''7''], File [9])]"

definition fs_shard :: fs where
  "fs_shard =
     [([''data''], Dir), ([''data'', ''arr''], Dir), ([''data'', ''arr'', ''0''], Dir),
      ([''data'', ''arr'', ''0'', ''4.h5''], H5 [(''6.7'', [1, 2])])]"

text \<open>
  A store that writes every key as a file, and a tree where \<open>arr/0\<close> is a
  directory with a chunk file in it.
\<close>

definition flat_store :: store where
  "flat_store = example_store\<lparr>write_direct := False\<rparr>"

definition fs_nested :: fs where
  "fs_nested =
     [([''data''], Dir), ([''data'', ''arr''], Dir), ([''data'', ''arr'', ''0''], Dir),
      ([''data'', ''arr'', ''0'', ''1''], File [7])]"

text \<open>
  A tree where a plain file that is no HDF5 container stands at the path of
  the container \<open>arr/0/4.h5\<close>.
\<close>

definition fs_blocked :: fs where
  "fs_blocked =
     [([''data''], Dir), ([''data'', ''arr''], Dir), ([''data'', ''arr'', ''0''], Dir),
      ([''data'', ''arr'', ''0'', ''4.h5''], File [0])]"

text \<open>
  A store that verifies its writes, and one that does so under the
  distributed lock; a container that every put finds busy,
  and one that is busy for the first two puts; a medium that never keeps the
  bytes, and one that loses the first two writes.
\<close>

definition verify_store :: store where
  "verify_store = example_store\<lparr>auto_verify_write := True\<rparr>"

definition lock_store :: store where
  "lock_store = verify_store\<lparr>distribuited := True\<rparr>"

definition busy_env :: env where
  "busy_env = quiet_env\<lparr>h5_busy := (\<lambda>n. True)\<rparr>"

definition busy_twice_env :: env where
  "busy_twice_env = quiet_env\<lparr>h5_busy := (\<lambda>n. n < 2)\<rparr>"

definition lossy_env :: env where
  "lossy_env = quiet_env\<lparr>medium := (\<lambda>n b. [])\<rparr>"

definition lossy_twice_env :: env where
  "lossy_twice_env = quiet_env\<lparr>medium := (\<lambda>n b. if n < 2 then [] else b)\<rparr>"

text \<open>An array with its metadata file of three bytes and a chunk of two bytes.\<close>

definition fs_sizes :: fs where
  "fs_sizes =
     [([''data''], Dir), ([''data'', ''arr''], Dir),
      ([''data'', ''arr'', ''.zarray''], File [1, 2, 3]),
      ([''data'', ''arr'', ''0''], Dir),
      ([''data'', ''arr'', ''0'', ''1''], File [7, 7])]"

text \<open>
  An array of rank six in one file per chunk, with the chunk
  \<open>arr/0/0/0/4/6/7\<close>; the same array after one run of \<open>consolidate\<close>, and
  after two.
\<close>

definition fs_rank6 :: fs where
  "fs_rank6 =
     [([''data''], Dir), ([''data'', ''arr''], Dir),
      ([''data'', ''arr'', ''.zarray''], File [1]),
      ([''data'', ''arr'', ''0''], Dir),
      ([''data'', ''arr'', ''0'', ''0''], Dir),
      ([''data'', ''arr'', ''0'', ''0'', ''0''], Dir),
      ([''data'', ''arr'', ''0'', ''0'', ''0'', ''4''], Dir),
      ([''data'', ''arr'', ''0'', ''0'', ''0'', ''4'', ''6''], Dir),
      ([''data'', ''arr'', ''0'', ''0'', ''0'', ''4'', ''6'', ''7''], File [9])]"

definition fs_rank6_once :: fs where
  "fs_rank6_once =
     [([''data''], Dir), ([''data'', ''arr''], Dir),
      ([''data'', ''arr'', ''.zarray''], File [1]),
      ([''data'', ''arr'', ''0''], Dir),
      ([''data'', ''arr'', ''0'', ''0''], Dir),
      ([''data'', ''arr'', ''0'', ''0'', ''0''], Dir),
      ([''data'', ''arr'', ''0'', ''0'', ''0'', ''4.h5''], H5 [(''6.7'', [9])])]"

definition fs_rank6_twice :: fs where
  "fs_rank6_twice =
     [([''data''], Dir), ([''data'', ''arr''], Dir),
      ([''data'', ''arr'', ''.zarray''], File [1]),
      ([''data'', ''arr'', ''0''], Dir),
      ([''data'', ''arr'', ''0'', ''0.h5''], H5 [(''0.4.h5'', [9])])]"

text \<open>An array of rank five in one file per chunk, with three chunks.\<close>

definition fs_rank5 :: fs where
  "fs_rank5 =
     [([''data''], Dir), ([''data'', ''arr''], Dir),
      ([''data'', ''arr'', ''.zarray''], File [1]),
      ([''data'', ''arr'', ''0''], Dir),
      ([''data'', ''arr'', ''0'', ''0''], Dir),
      ([''data'', ''arr'', ''0'', ''0'', ''4''], Dir),
      ([''data'', ''arr'', ''0'', ''0'', ''4'', ''6''], Dir),
      ([''data'', ''arr'', ''0'', ''0'', ''4'', ''6'', ''7''], File [9]),
      ([''data'', ''arr'', ''0'', ''0'', ''4'', ''6'', ''8''], File [8]),
      ([''data'', ''arr'', ''0'', ''0'', ''5''], Dir),
      ([''data'', ''arr'', ''0'', ''0'', ''5'', ''6''], Dir),
      ([''data'', ''arr'', ''0'', ''0'', ''5'', ''6'', ''7''], File [7])]"

definition fs_rank5_once :: fs where
  "fs_rank5_once =
     [([''data''], Dir), ([''data'', ''arr''], Dir),
      ([''data'', ''arr'', ''.zarray''], File [1]),
      ([''data'', ''arr'', ''0''], Dir),
      ([''data'', ''arr'', ''0'', ''0''], Dir),
      ([''data'', ''arr'', ''0'', ''0'', ''4.h5''], H5 [(''6.7'', [9]), (''6.8'', [8])]),
      ([''data'', ''arr'', ''0'', ''0'', ''5.h5''], H5 [(''6.7'', [7])])]"

text \<open>An array of rank five whose one chunk file has no bytes.\<close>

definition fs_rank5_empty :: fs where
  "fs_rank5_empty =
     [([''data''], Dir), ([''data'', ''arr''], Dir),
      ([''data'', ''arr'', ''.zarray''], File [1]),
      ([''data'', ''arr'', ''0''], Dir),
      ([''data'', ''arr'', ''0'', ''0''], Dir),
      ([''data'', ''arr'', ''0'', ''0'', ''4''], Dir),
      ([''data'', ''arr'', ''0'', ''0'', ''4'', ''6''], Dir),
      ([''data'', ''arr'', ''0'', ''0'', ''4'', ''6'', ''7''], File [])]"

section \<open>The codec\<close>

lemma split_path_snoc: "split_path (p @ [s]) = (p, s)"
  by (cases p) simp_all

lemma dot_join_snoc_cons: "dot_join (s # ss) = s @ concat (map (\<lambda>t. ''.'' @ t) ss)"
  by (induction ss arbitrary: s) simp_all

lemma archive_loop_take:
  "n \<le> length p \<Longrightarrow>
   archive_loop n p key =
     (take (length p - n) p, concat (map (\<lambda>t. ''.'' @ t) (drop (length p - n) p)) @ key)"
proof (induction n arbitrary: p key)
  case 0
  then show ?case by simp
next
  case (Suc n)
  then have "p \<noteq> []" by auto
  then obtain q s where p: "p = q @ [s]" by (metis rev_exhaust)
  with Suc.prems have n: "n \<le> length q" by simp
  have "archive_loop (Suc n) p key = archive_loop n q (''.'' @ s @ key)"
    by (simp add: p split_path_snoc)
  also have "\<dots> = (take (length q - n) q,
      concat (map (\<lambda>t. ''.'' @ t) (drop (length q - n) q)) @ ''.'' @ s @ key)"
    using Suc.IH [OF n] by simp
  finally show ?case using n by (simp add: p)
qed

lemma get_archive_key_name_segments:
  assumes "folded st < length p"
  shows "get_archive_key_name st p =
    (add_ext (take (length p - folded st) p) (container_ext st),
     dot_join (drop (length p - folded st) p))"
proof -
  define n where "n = nat (consolidate_depth st - 2)"
  have k: "folded st = Suc n" by (simp add: folded_def n_def)
  with assms have n: "n \<le> length p" and sn: "Suc n < length p" by simp_all
  define q where "q = take (length p - n) p"
  have qne: "q \<noteq> []" using sn by (auto simp: q_def)
  then obtain r s where q: "q = r @ [s]" by (metis rev_exhaust)
  have lenq: "length q = length p - n" by (simp add: q_def)
  have r: "r = take (length p - Suc n) p"
  proof -
    have "r = butlast q" by (simp add: q)
    also have "\<dots> = take (length q - 1) q" by (simp add: butlast_conv_take)
    also have "\<dots> = take (length p - Suc n) p"
    proof -
      have "min (length p - n - 1) (length p - n) = length p - Suc n" by simp
      then show ?thesis by (simp add: q_def)
    qed
    finally show ?thesis .
  qed
  have s: "s = p ! (length p - Suc n)"
  proof -
    have "s = last q" by (simp add: q)
    also have "\<dots> = q ! (length q - 1)" using qne by (simp add: last_conv_nth)
    also have "\<dots> = p ! (length p - Suc n)" using sn by (simp add: q_def lenq)
    finally show ?thesis .
  qed
  have d: "drop (length p - Suc n) p = s # drop (length p - n) p"
  proof -
    have "length p - Suc n < length p" using sn by simp
    then have "drop (length p - Suc n) p = p ! (length p - Suc n) # drop (Suc (length p - Suc n)) p"
      by (simp add: Cons_nth_drop_Suc)
    moreover have "Suc (length p - Suc n) = length p - n" using sn by simp
    ultimately show ?thesis by (simp add: s)
  qed
  have "get_archive_key_name st p =
      (add_ext r (container_ext st), s @ concat (map (\<lambda>t. ''.'' @ t) (drop (length p - n) p)))"
    unfolding get_archive_key_name_def n_def [symmetric]
    by (simp add: archive_loop_take [OF n] q_def [symmetric] q split_path_snoc)
  then show ?thesis by (simp add: k r d dot_join_snoc_cons)
qed

text \<open>
  C3 (as the code has it). The entry name is made of the last
  \<open>max 1 (D - 1)\<close> segments of the path joined by \<open>.\<close>, and the container
  path of all the segments before them, with the extension appended to the
  last of these. With \<open>D = 3\<close> the key \<open>array/0/0/4/6/7\<close> is the entry
  \<open>6.7\<close> of the container \<open>array/0/0/4.h5\<close>, as the module's docstring
  describes (containers at axis \<open>-3\<close>, holding the remaining two axes).
\<close>

theorem C3_codec_segments:
  "folded st < length (join (path st) key) \<Longrightarrow>
   folded st = nat (max 1 (consolidate_depth st - 1)) \<and>
   get_archive_key_name st (join (path st) key) =
     (add_ext (take (length (join (path st) key) - folded st) (join (path st) key))
        (container_ext st),
      dot_join (drop (length (join (path st) key) - folded st) (join (path st) key)))"
  using get_archive_key_name_segments [of st "join (path st) key"]
  by (simp add: folded_def)

theorem C3_codec_segments_witness:
  "folded example_store < length (join (path example_store) [''array'', ''0'', ''0'', ''4'', ''6'', ''7'']) \<and>
   get_archive_key_name example_store
      (join (path example_store) [''array'', ''0'', ''0'', ''4'', ''6'', ''7'']) =
     ([''data'', ''array'', ''0'', ''0'', ''4.h5''], ''6.7'')"
  using C3_codec_segments [of example_store "[''array'', ''0'', ''0'', ''4'', ''6'', ''7'']"]
  by (simp add: folded_def example_store_def join_def)

theorem C3_codec_counterexample:
  "get_archive_key_name example_store
      (join (path example_store) [''array'', ''0'', ''0'', ''4'', ''6'', ''7''])
    \<noteq> ([''data'', ''array'', ''0'', ''0.h5''], ''4.6.7'')"
  by (simp add: get_archive_key_name_def example_store_def join_def)

section \<open>Facts about the file system\<close>

lemma lookup_fs_put:
  "lookup (fs_put fs p n) q = (if q = [] then Some Dir else if q = p then Some n else lookup fs q)"
  by (simp add: lookup_def fs_put_def update_conv')

lemma lookup_fs_del:
  "lookup (fs_del fs p) q = (if q = [] then Some Dir else if q = p then None else lookup fs q)"
  by (simp add: lookup_def fs_del_def delete_conv')

lemma map_of_filter_fst:
  "map_of (filter (\<lambda>e. P (fst e)) xs) q = (if P q then map_of xs q else None)"
  by (induction xs) auto

lemma lookup_rmtree:
  "lookup (rmtree fs p) q = (if q = [] then Some Dir else if prefix p q then None else lookup fs q)"
  by (simp add: lookup_def rmtree_def map_of_filter_fst [where P = "\<lambda>q. \<not> prefix p q"])

lemma lookup_root: "lookup fs [] = Some Dir"
  by (simp add: lookup_def)

lemma mkdir_lookup:
  "mkdir fs p = Inr fs' \<Longrightarrow> lookup fs' q = (if q = p then Some Dir else lookup fs q)"
proof -
  assume a: "mkdir fs p = Inr fs'"
  then have "lookup fs p = None" and fs': "fs' = fs_put fs p Dir"
    by (auto simp: mkdir_def exists_path_def split: if_splits)
  then have "p \<noteq> []" using lookup_root [of fs] by auto
  then show ?thesis using lookup_root [of fs] by (auto simp: fs' lookup_fs_put)
qed

lemma mkdir_fresh: "mkdir fs p = Inr fs' \<Longrightarrow> lookup fs p = None"
  by (auto simp: mkdir_def exists_path_def split: if_splits)

text \<open>\<open>makedirs\<close> keeps what is there and adds directories on the way to \<open>p\<close> only.\<close>

lemma makedirs_lookup:
  "makedirs fs p ok = Inr fs' \<Longrightarrow>
     lookup fs' q = lookup fs q \<or> (lookup fs q = None \<and> lookup fs' q = Some Dir \<and> prefix q p)"
proof (induction fs p ok arbitrary: fs' rule: makedirs.induct)
  case (1 fs p ok)
  show ?case
  proof (cases "p \<noteq> [] \<and> \<not> exists_path fs (butlast p)")
    case False
    then have eq: "(case mkdir fs p of
             Inl e \<Rightarrow> if \<not> ok \<or> \<not> isdir fs p then Inl e else Inr fs
           | Inr fs2 \<Rightarrow> Inr fs2) = Inr fs'"
      using "1.prems" by (subst (asm) makedirs.simps) auto
    show ?thesis
    proof (cases "mkdir fs p")
      case (Inl e)
      with eq have "fs' = fs" by (auto split: if_splits)
      then show ?thesis by simp
    next
      case (Inr fs2)
      with eq have "fs2 = fs'" by simp
      with Inr mkdir_lookup [of fs p fs' q] mkdir_fresh [of fs p fs'] show ?thesis
        by auto
    qed
  next
    case True
    define r where "r = makedirs fs (butlast p) ok"
    define fs1 where "fs1 = (case r of Inl e \<Rightarrow> fs | Inr f \<Rightarrow> f)"
    have step1: "lookup fs1 q = lookup fs q \<or>
        (lookup fs q = None \<and> lookup fs1 q = Some Dir \<and> prefix q (butlast p))"
    proof (cases r)
      case (Inl e)
      then show ?thesis by (simp add: fs1_def)
    next
      case (Inr f)
      then have "makedirs fs (butlast p) ok = Inr f" by (simp add: r_def)
      from "1.IH" [OF True this] Inr show ?thesis by (simp add: fs1_def)
    qed
    have eq: "(case mkdir fs1 p of
             Inl e \<Rightarrow> if \<not> ok \<or> \<not> isdir fs1 p then Inl e else Inr fs1
           | Inr fs2 \<Rightarrow> Inr fs2) = Inr fs'"
      using "1.prems" True
      by (subst (asm) makedirs.simps)
         (auto simp: r_def [symmetric] fs1_def split: sum.splits if_splits)
    have step2: "lookup fs' q = lookup fs1 q \<or>
        (lookup fs1 q = None \<and> lookup fs' q = Some Dir \<and> q = p)"
    proof (cases "mkdir fs1 p")
      case (Inl e)
      with eq have "fs' = fs1" by (auto split: if_splits)
      then show ?thesis by simp
    next
      case (Inr fs2)
      with eq have "fs2 = fs'" by simp
      with Inr mkdir_lookup [of fs1 p fs' q] mkdir_fresh [of fs1 p fs'] show ?thesis
        by auto
    qed
    have "prefix (butlast p) p" by (simp add: prefixeq_butlast)
    with step1 step2 show ?thesis by (auto intro: prefix_order.trans)
  qed
qed

lemma makedirs_isdir: "makedirs fs p ok = Inr fs' \<Longrightarrow> isdir fs' p"
proof -
  assume a: "makedirs fs p ok = Inr fs'"
  obtain fs1 where eq: "(case mkdir fs1 p of
             Inl e \<Rightarrow> if \<not> ok \<or> \<not> isdir fs1 p then Inl e else Inr fs1
           | Inr fs2 \<Rightarrow> Inr fs2) = Inr fs'"
    using a by (subst (asm) makedirs.simps) (auto split: sum.splits if_splits)
  show ?thesis
  proof (cases "mkdir fs1 p")
    case (Inl e)
    with eq show ?thesis by (auto split: if_splits)
  next
    case (Inr fs2)
    with eq mkdir_lookup [of fs1 p fs' p] show ?thesis by (simp add: isdir_def)
  qed
qed

lemma makedirs_keeps: "makedirs fs p ok = Inr fs' \<Longrightarrow> lookup fs q = Some n \<Longrightarrow> lookup fs' q = Some n"
  using makedirs_lookup [of fs p ok fs' q] by auto

lemma write_file_lookup:
  "write_file fs fn b = Inr fs' \<Longrightarrow>
     lookup fs' q = (if q = fn then Some (File b) else lookup fs q)"
proof -
  assume a: "write_file fs fn b = Inr fs'"
  then have "\<not> isdir fs fn" and fs': "fs' = fs_put fs fn (File b)"
    by (auto simp: write_file_def split: if_splits)
  then have "fn \<noteq> []" using lookup_root [of fs] by (auto simp: isdir_def)
  then show ?thesis using lookup_root [of fs] by (auto simp: fs' lookup_fs_put)
qed

lemma write_file_again:
  "write_file fs fn b = Inr fs' \<Longrightarrow> \<exists>fs''. write_file fs' fn b' = Inr fs''"
proof -
  assume a: "write_file fs fn b = Inr fs'"
  then have "\<not> isdir fs fn" by (auto simp: write_file_def split: if_splits)
  then have ne: "fn \<noteq> []" using lookup_root [of fs] by (auto simp: isdir_def)
  have par: "isdir fs (butlast fn)" using a by (auto simp: write_file_def split: if_splits)
  have "butlast fn \<noteq> fn" using ne by (cases fn rule: rev_cases) auto
  then have "lookup fs' (butlast fn) = lookup fs (butlast fn)"
    using write_file_lookup [OF a, of "butlast fn"] by simp
  moreover have "lookup fs' fn = Some (File b)" using write_file_lookup [OF a, of fn] by simp
  ultimately show ?thesis using par
    by (simp add: write_file_def isdir_def exists_path_def)
qed

section \<open>The write loops\<close>

lemma tofile_result:
  assumes "tofile st env a fn fs n = Some y"
  shows "(\<forall>q. q \<noteq> fn \<longrightarrow> lookup (snd y) q = lookup fs q) \<and>
         (fst y = Inr () \<longrightarrow>
            (\<exists>m. lookup (snd y) fn = Some (File (medium env m a)) \<and>
                 (auto_verify_write st \<longrightarrow> medium env m a = a) \<and>
                 (\<not> auto_verify_write st \<longrightarrow> m = n)))"
proof (rule tofile.raw_induct [where P = "\<lambda>st env a fn fs n y.
      (\<forall>q. q \<noteq> fn \<longrightarrow> lookup (snd y) q = lookup fs q) \<and>
         (fst y = Inr () \<longrightarrow>
            (\<exists>m. lookup (snd y) fn = Some (File (medium env m a)) \<and>
                 (auto_verify_write st \<longrightarrow> medium env m a = a) \<and>
                 (\<not> auto_verify_write st \<longrightarrow> m = n)))", OF _ assms])
  fix tf st env a fn fs n y
  assume IH: "\<And>st env a fn fs n y. tf st env a fn fs n = Some y \<Longrightarrow>
      (\<forall>q. q \<noteq> fn \<longrightarrow> lookup (snd y) q = lookup fs q) \<and>
         (fst y = Inr () \<longrightarrow>
            (\<exists>m. lookup (snd y) fn = Some (File (medium env m a)) \<and>
                 (auto_verify_write st \<longrightarrow> medium env m a = a) \<and>
                 (\<not> auto_verify_write st \<longrightarrow> m = n)))"
    and eq: "(case write_file fs fn (medium env n a) of
        Inl e \<Rightarrow> Some (Inl e, fs)
      | Inr fs1 \<Rightarrow>
          if auto_verify_write st
          then (if fromfile env fs1 fn = Inr a then Some (Inr (), fs1)
                else tf st env a fn fs1 (Suc n))
          else Some (Inr (), fs1)) = Some y"
  show "(\<forall>q. q \<noteq> fn \<longrightarrow> lookup (snd y) q = lookup fs q) \<and>
         (fst y = Inr () \<longrightarrow>
            (\<exists>m. lookup (snd y) fn = Some (File (medium env m a)) \<and>
                 (auto_verify_write st \<longrightarrow> medium env m a = a) \<and>
                 (\<not> auto_verify_write st \<longrightarrow> m = n)))"
  proof (cases "write_file fs fn (medium env n a)")
    case (Inl e)
    with eq show ?thesis by auto
  next
    case (Inr fs1)
    note w = write_file_lookup [OF Inr]
    show ?thesis
    proof (cases "auto_verify_write st \<and> fromfile env fs1 fn \<noteq> Inr a")
      case True
      with eq Inr have "tf st env a fn fs1 (Suc n) = Some y" by auto
      from IH [OF this] w True show ?thesis by auto
    next
      case False
      with eq Inr have y: "y = (Inr (), fs1)" by (auto split: if_splits)
      have "lookup fs1 fn = Some (File (medium env n a))" using w by simp
      moreover have "auto_verify_write st \<longrightarrow> medium env n a = a"
        using False w [of fn] by (auto simp: fromfile_def)
      ultimately show ?thesis using w by (auto simp: y)
    qed
  qed
qed

lemma tofile_first:
  assumes "write_file fs fn (medium env n a) = Inr fs1"
    and "\<not> auto_verify_write st \<or> medium env n a = a"
  shows "tofile st env a fn fs n = Some (Inr (), fs1)"
proof -
  have "fromfile env fs1 fn = Inr (medium env n a)"
    using write_file_lookup [OF assms(1), of fn] by (simp add: fromfile_def)
  with assms show ?thesis by (subst tofile.simps) auto
qed

lemma h5_open_append_error: "h5_open_append fs busy archive = Inl e \<Longrightarrow> is_OSError e"
  by (auto simp: h5_open_append_def is_OSError_def split: option.splits node.splits if_splits)

lemma toh5_attempt_closed:
  "h5_open_append fs (h5_busy env n) archive = Inl e \<Longrightarrow>
     toh5_attempt env archive key v fs n = (Inr (), fs)"
  "h5_open_append fs (h5_busy env n) archive = Inr c \<Longrightarrow> v \<noteq> [] \<Longrightarrow>
     toh5_attempt env archive key v fs n =
       (Inr (), fs_put fs archive (H5 (AList.delete key c @ [(key, v)])))"
  "h5_open_append fs (h5_busy env n) archive = Inr c \<Longrightarrow> v = [] \<Longrightarrow>
     toh5_attempt env archive key v fs n =
       (Inl ValueError, fs_put fs archive (H5 (AList.delete key c)))"
proof -
  show "toh5_attempt env archive key v fs n = (Inr (), fs)"
    if "h5_open_append fs (h5_busy env n) archive = Inl e"
    using that h5_open_append_error [OF that]
    by (simp add: toh5_attempt_def h5_write_entry_def)
  show "toh5_attempt env archive key v fs n =
       (Inr (), fs_put fs archive (H5 (AList.delete key c @ [(key, v)])))"
    if "h5_open_append fs (h5_busy env n) archive = Inr c" "v \<noteq> []"
    using that by (simp add: toh5_attempt_def h5_write_entry_def create_dataset_def)
  show "toh5_attempt env archive key v fs n =
       (Inl ValueError, fs_put fs archive (H5 (AList.delete key c)))"
    if "h5_open_append fs (h5_busy env n) archive = Inr c" "v = []"
    using that by (simp add: toh5_attempt_def h5_write_entry_def create_dataset_def is_OSError_def)
qed

lemma toh5_attempt_other:
  "q \<noteq> archive \<Longrightarrow> lookup (snd (toh5_attempt env archive key v fs n)) q = lookup fs q"
proof (cases "h5_open_append fs (h5_busy env n) archive")
  case (Inl e)
  then show ?thesis by (simp add: toh5_attempt_closed(1))
next
  case (Inr c)
  assume "q \<noteq> archive"
  then show ?thesis
    using toh5_attempt_closed(2,3) [OF Inr, of v key]
    by (cases "v = []") (simp_all add: lookup_fs_put lookup_root)
qed

lemma toh5_attempt_archive:
  "lookup (snd (toh5_attempt env archive key v fs n)) archive = lookup fs archive \<or>
   (\<exists>c. lookup (snd (toh5_attempt env archive key v fs n)) archive = Some (H5 c))"
proof (cases "h5_open_append fs (h5_busy env n) archive")
  case (Inl e)
  then show ?thesis by (simp add: toh5_attempt_closed(1))
next
  case (Inr c)
  then show ?thesis
    using toh5_attempt_closed(2,3) [OF Inr, of v key]
    by (cases "v = []") (auto simp: lookup_fs_put lookup_root)
qed

lemma toh5_result:
  assumes "toh5 st env archive key v fs n = Some y"
  shows "(\<forall>q. q \<noteq> archive \<longrightarrow> lookup (snd y) q = lookup fs q) \<and>
         (lookup (snd y) archive = lookup fs archive \<or> (\<exists>c. lookup (snd y) archive = Some (H5 c))) \<and>
         (fst y = Inr () \<longrightarrow> auto_verify_write st \<longrightarrow> fromh5 (snd y) archive key = Inr v)"
proof (rule toh5.raw_induct [where P = "\<lambda>st env archive key v fs n y.
     (\<forall>q. q \<noteq> archive \<longrightarrow> lookup (snd y) q = lookup fs q) \<and>
         (lookup (snd y) archive = lookup fs archive \<or> (\<exists>c. lookup (snd y) archive = Some (H5 c))) \<and>
         (fst y = Inr () \<longrightarrow> auto_verify_write st \<longrightarrow> fromh5 (snd y) archive key = Inr v)",
      OF _ assms])
  fix th st env archive key v fs n y
  assume IH: "\<And>st env archive key v fs n y. th st env archive key v fs n = Some y \<Longrightarrow>
     (\<forall>q. q \<noteq> archive \<longrightarrow> lookup (snd y) q = lookup fs q) \<and>
         (lookup (snd y) archive = lookup fs archive \<or> (\<exists>c. lookup (snd y) archive = Some (H5 c))) \<and>
         (fst y = Inr () \<longrightarrow> auto_verify_write st \<longrightarrow> fromh5 (snd y) archive key = Inr v)"
    and eq0: "(case toh5_attempt env archive key v fs n of
        (Inl e, fs1) \<Rightarrow> Some (Inl e, fs1)
      | (Inr u, fs1) \<Rightarrow>
          if auto_verify_write st
          then (case fromh5 fs1 archive key of
                  Inr b \<Rightarrow>
                    if b = v then Some (Inr (), fs1)
                    else th st env archive key v fs1 (Suc n)
                | Inl e \<Rightarrow>
                    if e = KeyError then th st env archive key v fs1 (Suc n)
                    else Some (Inl e, fs1))
          else Some (Inr (), fs1)) = Some y"
  obtain r1 fs1 where at: "toh5_attempt env archive key v fs n = (r1, fs1)"
    by (cases "toh5_attempt env archive key v fs n")
  have o: "\<And>q. q \<noteq> archive \<Longrightarrow> lookup fs1 q = lookup fs q"
    using toh5_attempt_other [of _ archive env key v fs n] by (simp add: at)
  have a: "lookup fs1 archive = lookup fs archive \<or> (\<exists>c. lookup fs1 archive = Some (H5 c))"
    using toh5_attempt_archive [of env archive key v fs n] by (simp add: at)
  consider (again) "th st env archive key v fs1 (Suc n) = Some y"
    | (stop) "y = (Inr (), fs1)" "auto_verify_write st \<longrightarrow> fromh5 fs1 archive key = Inr v"
    | (err) e where "y = (Inl e, fs1)"
  proof (cases r1)
    case (Inl e)
    with eq0 at have "y = (Inl e, fs1)" by simp
    then show ?thesis by (rule err)
  next
    case (Inr u)
    note r1 = this
    show ?thesis
    proof (cases "auto_verify_write st")
      case False
      with eq0 at r1 have "y = (Inr (), fs1)" by simp
      with False stop show ?thesis by simp
    next
      case True
      note v = this
      show ?thesis
      proof (cases "fromh5 fs1 archive key")
        case (Inl e)
        show ?thesis
        proof (cases "e = KeyError")
          case True
          with eq0 at r1 v Inl have "th st env archive key v fs1 (Suc n) = Some y" by simp
          then show ?thesis by (rule again)
        next
          case False
          with eq0 at r1 v Inl have "y = (Inl e, fs1)" by simp
          then show ?thesis by (rule err)
        qed
      next
        case (Inr b)
        show ?thesis
        proof (cases "b = v")
          case True
          with eq0 at r1 v Inr have "y = (Inr (), fs1)" by simp
          with True Inr stop show ?thesis by simp
        next
          case False
          with eq0 at r1 v Inr have "th st env archive key v fs1 (Suc n) = Some y" by simp
          then show ?thesis by (rule again)
        qed
      qed
    qed
  qed
  then show "(\<forall>q. q \<noteq> archive \<longrightarrow> lookup (snd y) q = lookup fs q) \<and>
         (lookup (snd y) archive = lookup fs archive \<or> (\<exists>c. lookup (snd y) archive = Some (H5 c))) \<and>
         (fst y = Inr () \<longrightarrow> auto_verify_write st \<longrightarrow> fromh5 (snd y) archive key = Inr v)"
  proof cases
    case again
    from IH [OF this] o a show ?thesis by auto
  next
    case stop
    with o a show ?thesis by auto
  next
    case err
    with o a show ?thesis by auto
  qed
qed

section \<open>Writing a key as a file\<close>

lemma finally_cleanup_other:
  "q \<noteq> temp \<Longrightarrow> lookup (snd (finally_cleanup (r, fs) temp)) q = lookup fs q"
  by (auto simp: finally_cleanup_def os_remove_def lookup_fs_del lookup_root
      split: option.splits node.splits)

lemma finally_cleanup_absent:
  "lookup fs temp = None \<Longrightarrow> finally_cleanup (r, fs) temp = (r, fs)"
  by (simp add: finally_cleanup_def exists_path_def)

lemma os_replace_lookup:
  assumes "os_replace fs src dst = Inr fs'"
  shows "\<exists>n. lookup fs src = Some n \<and> n \<noteq> Dir \<and> src \<noteq> [] \<and> dst \<noteq> [] \<and>
     isdir fs (butlast dst) \<and>
     (\<forall>q. lookup fs' q = (if q = dst then Some n else if q = src then None else lookup fs q))"
proof -
  from assms obtain n where n: "lookup fs src = Some n" "n \<noteq> Dir"
    and nd: "\<not> isdir fs dst" and pd: "isdir fs (butlast dst)"
    and fs': "fs' = fs_put (fs_del fs src) dst n"
    by (auto simp: os_replace_def split: option.splits node.splits if_splits)
  from n have s: "src \<noteq> []" using lookup_root [of fs] by auto
  from nd have d: "dst \<noteq> []" using lookup_root [of fs] by (auto simp: isdir_def)
  show ?thesis using n s d pd lookup_root [of fs]
    by (auto simp: fs' lookup_fs_put lookup_fs_del)
qed

lemma split_path_nonempty: "p \<noteq> [] \<Longrightarrow> split_path p = (butlast p, last p)"
  by (cases p) simp_all

lemma temp_path_of_nonempty:
  "fp \<noteq> [] \<Longrightarrow>
     temp_path_of env fp = butlast fp @ [last fp @ ''.'' @ uuid_hex env @ ''.partial'']"
  by (simp add: temp_path_of_def split_path_nonempty join_def)

lemma temp_path_of_facts:
  assumes "fp \<noteq> []"
  shows "temp_path_of env fp \<noteq> fp" and "temp_path_of env fp \<noteq> []"
    and "butlast (temp_path_of env fp) = butlast fp"
    and "\<not> prefix fp (temp_path_of env fp)"
    and "temp_path_of env fp \<noteq> butlast fp"
proof -
  let ?t = "butlast fp @ [last fp @ ''.'' @ uuid_hex env @ ''.partial'']"
  have t: "temp_path_of env fp = ?t" by (rule temp_path_of_nonempty [OF assms])
  have fp: "fp = butlast fp @ [last fp]" using assms by simp
  have len: "length ?t = length fp" using assms by simp
  have neq: "?t \<noteq> fp"
  proof
    assume "?t = fp"
    then have "?t = butlast fp @ [last fp]" using fp by simp
    then show False by simp
  qed
  show "temp_path_of env fp \<noteq> fp" using neq t by simp
  show "temp_path_of env fp \<noteq> []" by (simp add: t)
  show "butlast (temp_path_of env fp) = butlast fp" by (simp add: t)
  show "\<not> prefix fp (temp_path_of env fp)"
  proof
    assume "prefix fp (temp_path_of env fp)"
    then obtain zs where z: "?t = fp @ zs" by (auto simp: t prefix_def)
    then have "length ?t = length fp + length zs" by (metis length_append)
    with len have "zs = []" by simp
    with z neq show False by simp
  qed
  show "temp_path_of env fp \<noteq> butlast fp"
  proof
    assume "temp_path_of env fp = butlast fp"
    then have "length ?t = length (butlast fp)" by (simp add: t)
    then show False by simp
  qed
qed

lemma setitem_file_unfold:
  assumes ne: "fp \<noteq> []"
  shows "setitem_file st env fs fp v =
     (if isfile (if isdir fs fp then rmtree fs fp else fs) (butlast fp)
      then Some (Inl KeyError, (if isdir fs fp then rmtree fs fp else fs))
      else (case (if \<not> exists_path (if isdir fs fp then rmtree fs fp else fs) (butlast fp)
                  then (case makedirs (if isdir fs fp then rmtree fs fp else fs) (butlast fp) False of
                          Inl e \<Rightarrow> if e = OSError EEXIST
                                   then Inr (if isdir fs fp then rmtree fs fp else fs)
                                   else Inl KeyError
                        | Inr f \<Rightarrow> Inr f)
                  else Inr (if isdir fs fp then rmtree fs fp else fs)) of
              Inl e \<Rightarrow> Some (Inl e, (if isdir fs fp then rmtree fs fp else fs))
            | Inr fs2 \<Rightarrow>
                (case tofile st env v (temp_path_of env fp) fs2 0 of
                   None \<Rightarrow> None
                 | Some (Inl e, fs3) \<Rightarrow>
                     Some (finally_cleanup (Inl e, fs3) (temp_path_of env fp))
                 | Some (Inr u, fs3) \<Rightarrow>
                     (case os_replace fs3 (temp_path_of env fp) fp of
                        Inl e \<Rightarrow> Some (finally_cleanup (Inl e, fs3) (temp_path_of env fp))
                      | Inr fs4 \<Rightarrow>
                          Some (finally_cleanup (Inr (), fs4) (temp_path_of env fp))))))"
  unfolding setitem_file_def Let_def temp_path_of_nonempty [OF ne]
    split_path_nonempty [OF ne] join_def prod.case
  by (rule refl)

lemma setitem_file_frame:
  assumes ne: "fp \<noteq> []"
    and res: "setitem_file st env fs fp v = Some (r, fs')"
    and q: "q \<noteq> fp" "q \<noteq> temp_path_of env fp"
       "\<not> prefix q (butlast fp)"
  shows "lookup fs' q = (if isdir fs fp \<and> prefix fp q then None else lookup fs q)"
proof -
  define temp where "temp = temp_path_of env fp"
  define fs1 where "fs1 = (if isdir fs fp then rmtree fs fp else fs)"
  have qne: "q \<noteq> []" using q(3) by auto
  have l1: "lookup fs1 q = (if isdir fs fp \<and> prefix fp q then None else lookup fs q)"
    unfolding fs1_def using qne by (simp add: lookup_rmtree)
  define m where "m = (if \<not> exists_path fs1 (butlast fp)
                      then (case makedirs fs1 (butlast fp) False of
                              Inl e \<Rightarrow> if e = OSError EEXIST then Inr fs1 else Inl KeyError
                            | Inr f \<Rightarrow> Inr f)
                      else Inr fs1)"
  have m_cases: "fs2 = fs1 \<or> makedirs fs1 (butlast fp) False = Inr fs2" if "m = Inr fs2" for fs2
    using that [unfolded m_def] by (auto split: if_splits sum.splits)
  have m_ok: "lookup fs2 q = lookup fs1 q" if "m = Inr fs2" for fs2
    using m_cases [OF that] makedirs_lookup [of fs1 "butlast fp" False fs2 q] q(3) by blast
  have unf: "setitem_file st env fs fp v =
     (if isfile fs1 (butlast fp) then Some (Inl KeyError, fs1)
      else (case m of
              Inl e \<Rightarrow> Some (Inl e, fs1)
            | Inr fs2 \<Rightarrow>
                (case tofile st env v temp fs2 0 of
                   None \<Rightarrow> None
                 | Some (Inl e, fs3) \<Rightarrow> Some (finally_cleanup (Inl e, fs3) temp)
                 | Some (Inr u, fs3) \<Rightarrow>
                     (case os_replace fs3 temp fp of
                        Inl e \<Rightarrow> Some (finally_cleanup (Inl e, fs3) temp)
                      | Inr fs4 \<Rightarrow> Some (finally_cleanup (Inr (), fs4) temp)))))"
    unfolding m_def fs1_def temp_def by (rule setitem_file_unfold [OF ne])
  have eq: "(if isfile fs1 (butlast fp) then Some (Inl KeyError, fs1)
      else (case m of
              Inl e \<Rightarrow> Some (Inl e, fs1)
            | Inr fs2 \<Rightarrow>
                (case tofile st env v temp fs2 0 of
                   None \<Rightarrow> None
                 | Some (Inl e, fs3) \<Rightarrow> Some (finally_cleanup (Inl e, fs3) temp)
                 | Some (Inr u, fs3) \<Rightarrow>
                     (case os_replace fs3 temp fp of
                        Inl e \<Rightarrow> Some (finally_cleanup (Inl e, fs3) temp)
                      | Inr fs4 \<Rightarrow> Some (finally_cleanup (Inr (), fs4) temp))))) = Some (r, fs')"
    using res unfolding unf .
  show ?thesis
  proof (cases "isfile fs1 (butlast fp)")
    case True
    with eq have "fs' = fs1" by simp
    with l1 show ?thesis by simp
  next
    case False
    note nf = this
    show ?thesis
    proof (cases m)
      case (Inl e)
      with eq nf Inl have "fs' = fs1" by simp
      with l1 show ?thesis by simp
    next
      case (Inr fs2)
      note l2 = m_ok [OF Inr]
      from eq nf Inr obtain r3 fs3 where t: "tofile st env v temp fs2 0 = Some (r3, fs3)"
        by (cases "tofile st env v temp fs2 0") auto
      have l3: "lookup fs3 q = lookup fs2 q"
        using tofile_result [OF t] q(2) by (simp add: temp_def)
      have qt: "q \<noteq> temp" using q(2) by (simp add: temp_def)
      show ?thesis
      proof (cases r3)
        case (Inl e)
        with eq nf Inr t have "(r, fs') = finally_cleanup (Inl e, fs3) temp" by simp
        then have "fs' = snd (finally_cleanup (Inl e, fs3) temp)" by (metis snd_conv)
        with finally_cleanup_other [OF qt] l3 l2 l1 show ?thesis by simp
      next
        case (Inr u)
        note r3 = this
        show ?thesis
        proof (cases "os_replace fs3 temp fp")
          case (Inl e)
          with eq nf \<open>m = Inr fs2\<close> t r3
          have "(r, fs') = finally_cleanup (Inl e, fs3) temp" by simp
          then have "fs' = snd (finally_cleanup (Inl e, fs3) temp)" by (metis snd_conv)
          with finally_cleanup_other [OF qt] l3 l2 l1 show ?thesis by simp
        next
          case (Inr fs4)
          with eq nf \<open>m = Inr fs2\<close> t r3
          have "(r, fs') = finally_cleanup (Inr (), fs4) temp" by simp
          then have "fs' = snd (finally_cleanup (Inr (), fs4) temp)" by (metis snd_conv)
          moreover have "lookup fs4 q = lookup fs3 q"
            using os_replace_lookup [OF Inr] q(1) qt by auto
          ultimately show ?thesis using finally_cleanup_other [OF qt] l3 l2 l1 by simp
        qed
      qed
    qed
  qed
qed

lemma finally_cleanup_Inl:
  "finally_cleanup (Inl e, fs) temp = (r, fs') \<Longrightarrow> r \<noteq> Inr ()"
  by (auto simp: finally_cleanup_def split: if_splits sum.splits)

lemma setitem_file_success:
  assumes ne: "fp \<noteq> []"
    and res: "setitem_file st env fs fp v = Some (Inr (), fs')"
  shows "\<exists>m. lookup fs' fp = Some (File (medium env m v)) \<and>
             (auto_verify_write st \<longrightarrow> medium env m v = v) \<and>
             (\<not> auto_verify_write st \<longrightarrow> m = 0)"
    and "isdir fs' (butlast fp)" and "lookup fs' (temp_path_of env fp) = None"
proof -
  define temp where "temp = temp_path_of env fp"
  define fs1 where "fs1 = (if isdir fs fp then rmtree fs fp else fs)"
  define m where "m = (if \<not> exists_path fs1 (butlast fp)
                      then (case makedirs fs1 (butlast fp) False of
                              Inl e \<Rightarrow> if e = OSError EEXIST then Inr fs1 else Inl KeyError
                            | Inr f \<Rightarrow> Inr f)
                      else Inr fs1)"
  have unf: "setitem_file st env fs fp v =
     (if isfile fs1 (butlast fp) then Some (Inl KeyError, fs1)
      else (case m of
              Inl e \<Rightarrow> Some (Inl e, fs1)
            | Inr fs2 \<Rightarrow>
                (case tofile st env v temp fs2 0 of
                   None \<Rightarrow> None
                 | Some (Inl e, fs3) \<Rightarrow> Some (finally_cleanup (Inl e, fs3) temp)
                 | Some (Inr u, fs3) \<Rightarrow>
                     (case os_replace fs3 temp fp of
                        Inl e \<Rightarrow> Some (finally_cleanup (Inl e, fs3) temp)
                      | Inr fs4 \<Rightarrow> Some (finally_cleanup (Inr (), fs4) temp)))))"
    unfolding m_def fs1_def temp_def by (rule setitem_file_unfold [OF ne])
  have eq: "(if isfile fs1 (butlast fp) then Some (Inl KeyError, fs1)
      else (case m of
              Inl e \<Rightarrow> Some (Inl e, fs1)
            | Inr fs2 \<Rightarrow>
                (case tofile st env v temp fs2 0 of
                   None \<Rightarrow> None
                 | Some (Inl e, fs3) \<Rightarrow> Some (finally_cleanup (Inl e, fs3) temp)
                 | Some (Inr u, fs3) \<Rightarrow>
                     (case os_replace fs3 temp fp of
                        Inl e \<Rightarrow> Some (finally_cleanup (Inl e, fs3) temp)
                      | Inr fs4 \<Rightarrow> Some (finally_cleanup (Inr (), fs4) temp))))) = Some (Inr (), fs')"
    using res unfolding unf .
  have nf: "\<not> isfile fs1 (butlast fp)" using eq by (auto split: if_splits)
  obtain fs2 where m: "m = Inr fs2" using eq nf by (cases m) auto
  obtain r3 fs3 where t: "tofile st env v temp fs2 0 = Some (r3, fs3)"
    using eq nf m by (cases "tofile st env v temp fs2 0") auto
  have r3: "r3 = Inr ()"
  proof (cases r3)
    case (Inl e)
    with eq nf m t have "finally_cleanup (Inl e, fs3) temp = (Inr (), fs')" by simp
    from finally_cleanup_Inl [OF this] show ?thesis by simp
  next
    case (Inr u) then show ?thesis by simp
  qed
  obtain fs4 where rp: "os_replace fs3 temp fp = Inr fs4"
  proof (cases "os_replace fs3 temp fp")
    case (Inl e)
    with eq nf m t r3 have "finally_cleanup (Inl e, fs3) temp = (Inr (), fs')" by simp
    from finally_cleanup_Inl [OF this] show ?thesis by simp
  next
    case (Inr f) then show ?thesis using that by simp
  qed
  have fin: "finally_cleanup (Inr (), fs4) temp = (Inr (), fs')"
    using eq nf m t r3 rp by simp
  from tofile_result [OF t] r3 obtain k where
    k: "lookup fs3 temp = Some (File (medium env k v))"
       "auto_verify_write st \<longrightarrow> medium env k v = v" "\<not> auto_verify_write st \<longrightarrow> k = 0"
    by auto
  from os_replace_lookup [OF rp] k(1) have
    l4: "\<And>q. lookup fs4 q = (if q = fp then Some (File (medium env k v))
                               else if q = temp then None else lookup fs3 q)"
    by auto
  have tne: "temp \<noteq> fp" unfolding temp_def by (rule temp_path_of_facts(1) [OF ne])
  have tnone: "lookup fs4 temp = None" using l4 [of temp] tne by simp
  from finally_cleanup_absent [OF this, of "Inr ()"] fin have fs4: "fs' = fs4" by simp
  with l4 [of fp] k show "\<exists>m. lookup fs' fp = Some (File (medium env m v)) \<and>
             (auto_verify_write st \<longrightarrow> medium env m v = v) \<and>
             (\<not> auto_verify_write st \<longrightarrow> m = 0)" by auto
  show "lookup fs' (temp_path_of env fp) = None" using tnone fs4 by (simp add: temp_def)
  have pd: "isdir fs3 (butlast fp)" using os_replace_lookup [OF rp] by blast
  have "butlast fp \<noteq> fp" using ne by (cases fp rule: rev_cases) auto
  moreover have "butlast fp \<noteq> temp"
    unfolding temp_def using temp_path_of_facts(5) [OF ne, of env] by simp
  ultimately have "lookup fs4 (butlast fp) = lookup fs3 (butlast fp)" using l4 by simp
  with pd fs4 show "isdir fs' (butlast fp)" by (simp add: isdir_def)
qed

lemma setitem_file_total:
  assumes ne: "fp \<noteq> []"
    and par: "isdir fs (butlast fp)"
    and tmp: "\<not> isdir fs (temp_path_of env fp)"
    and med: "\<not> auto_verify_write st \<or> medium env 0 v = v"
  shows "\<exists>fs'. setitem_file st env fs fp v = Some (Inr (), fs')"
proof -
  define temp where "temp = temp_path_of env fp"
  define fs1 where "fs1 = (if isdir fs fp then rmtree fs fp else fs)"
  have tf: "temp \<noteq> fp" "temp \<noteq> []" "butlast temp = butlast fp" "\<not> prefix fp temp"
      "temp \<noteq> butlast fp"
    unfolding temp_def by (rule temp_path_of_facts [OF ne])+
  have bp: "\<not> prefix fp (butlast fp)"
  proof
    assume "prefix fp (butlast fp)"
    then have "length fp \<le> length (butlast fp)" by (rule prefix_length_le)
    with ne show False by (cases fp rule: rev_cases) auto
  qed
  have l1: "lookup fs1 q = (if q \<noteq> [] \<and> isdir fs fp \<and> prefix fp q then None else lookup fs q)" for q
    by (simp add: fs1_def lookup_rmtree lookup_root)
  have par1: "isdir fs1 (butlast fp)" using par bp l1 [of "butlast fp"] by (simp add: isdir_def)
  have nfp: "\<not> isdir fs1 fp" using l1 [of fp] ne by (auto simp: isdir_def)
  have ntmp: "\<not> isdir fs1 temp" using l1 [of temp] tmp tf by (auto simp: isdir_def temp_def)
  define fs3 where "fs3 = fs_put fs1 temp (File (medium env 0 v))"
  have w: "write_file fs1 temp (medium env 0 v) = Inr fs3"
    using ntmp par1 tf by (simp add: write_file_def fs3_def exists_path_def isdir_def)
  have t: "tofile st env v temp fs1 0 = Some (Inr (), fs3)"
    by (rule tofile_first [OF w med])
  have l3: "lookup fs3 q = (if q = temp then Some (File (medium env 0 v)) else lookup fs1 q)" for q
    by (rule write_file_lookup [OF w])
  define fs4 where "fs4 = fs_put (fs_del fs3 temp) fp (File (medium env 0 v))"
  have rp: "os_replace fs3 temp fp = Inr fs4"
    using l3 [of temp] l3 [of fp] l3 [of "butlast fp"] tf nfp par1 bp
    by (auto simp: os_replace_def fs4_def isdir_def exists_path_def)
  have "lookup fs4 temp = None" using tf ne by (simp add: fs4_def lookup_fs_put lookup_fs_del)
  then have fin: "finally_cleanup (Inr (), fs4) temp = (Inr (), fs4)"
    by (rule finally_cleanup_absent)
  have nf: "\<not> isfile fs1 (butlast fp)" using par1 by (simp add: isfile_def isdir_def)
  have ex: "exists_path fs1 (butlast fp)" using par1 by (simp add: exists_path_def isdir_def)
  have "setitem_file st env fs fp v = Some (Inr (), fs4)"
    unfolding setitem_file_unfold [OF ne] fs1_def [symmetric] temp_def [symmetric]
    using nf ex t rp fin by simp
  then show ?thesis by blast
qed

section \<open>Reading a key\<close>

text \<open>
  C2. When a plain file stands at the path of a key, \<open>__getitem__\<close> returns
  the bytes of that file, whatever the container holds for the key; when no
  file stands there and the container holds an entry for the key, it returns
  the entry.
\<close>

theorem C2_raw_file_precedence:
  "(lookup fs (join (path st) (normalize_key st k)) = Some (File b) \<longrightarrow>
      getitem st env fs k = Inr b) \<and>
   (\<not> isfile fs (join (path st) (normalize_key st k)) \<and>
    fromh5 fs (fst (get_archive_key_name st (join (path st) (normalize_key st k))))
       (snd (get_archive_key_name st (join (path st) (normalize_key st k)))) = Inr b' \<longrightarrow>
      getitem st env fs k = Inr b')"
proof (intro conjI impI)
  assume "lookup fs (join (path st) (normalize_key st k)) = Some (File b)"
  then show "getitem st env fs k = Inr b"
    by (simp add: getitem_def Let_def isfile_def fromfile_def)
next
  let ?fp = "join (path st) (normalize_key st k)"
  assume a: "\<not> isfile fs ?fp \<and>
    fromh5 fs (fst (get_archive_key_name st ?fp)) (snd (get_archive_key_name st ?fp)) = Inr b'"
  obtain archive h_key where c: "get_archive_key_name st ?fp = (archive, h_key)"
    by (cases "get_archive_key_name st ?fp")
  from a c have r: "fromh5 fs archive h_key = Inr b'" by simp
  then have "isfile fs archive"
    by (auto simp: fromh5_def h5_open_read_def isfile_def split: option.splits node.splits)
  with a c r show "getitem st env fs k = Inr b'"
    by (simp add: getitem_def Let_def read_direct_to_h5_def)
qed

theorem C2_raw_file_precedence_witness:
  "lookup fs_both (join (path example_store) (normalize_key example_store [''arr'', ''0'', ''4'', ''6'', ''7'']))
     = Some (File [9]) \<and>
   fromh5 fs_both [''data'', ''arr'', ''0'', ''4.h5''] ''6.7'' = Inr [1, 2] \<and>
   getitem example_store quiet_env fs_both [''arr'', ''0'', ''4'', ''6'', ''7''] = Inr [9] \<and>
   \<not> isfile fs_shard (join (path example_store) (normalize_key example_store [''arr'', ''0'', ''4'', ''6'', ''7''])) \<and>
   getitem example_store quiet_env fs_shard [''arr'', ''0'', ''4'', ''6'', ''7''] = Inr [1, 2]"
proof -
  have p: "join (path example_store) (normalize_key example_store [''arr'', ''0'', ''4'', ''6'', ''7''])
      = [''data'', ''arr'', ''0'', ''4'', ''6'', ''7'']"
    by (simp add: join_def normalize_key_def example_store_def)
  have c: "get_archive_key_name example_store [''data'', ''arr'', ''0'', ''4'', ''6'', ''7'']
      = ([''data'', ''arr'', ''0'', ''4.h5''], ''6.7'')"
    by (simp add: get_archive_key_name_def example_store_def)
  have l1: "lookup fs_both [''data'', ''arr'', ''0'', ''4'', ''6'', ''7''] = Some (File [9])"
    by (simp add: lookup_def fs_both_def)
  have l2: "\<not> isfile fs_shard [''data'', ''arr'', ''0'', ''4'', ''6'', ''7'']"
    by (simp add: isfile_def lookup_def fs_shard_def)
  have h1: "fromh5 fs_both [''data'', ''arr'', ''0'', ''4.h5''] ''6.7'' = Inr [1, 2]"
    by (simp add: fromh5_def h5_open_read_def lookup_def fs_both_def)
  have h2: "fromh5 fs_shard [''data'', ''arr'', ''0'', ''4.h5''] ''6.7'' = Inr [1, 2]"
    by (simp add: fromh5_def h5_open_read_def lookup_def fs_shard_def)
  from C2_raw_file_precedence [of fs_both example_store "[''arr'', ''0'', ''4'', ''6'', ''7'']" "[9]" quiet_env]
    C2_raw_file_precedence [of fs_shard example_store "[''arr'', ''0'', ''4'', ''6'', ''7'']" _ quiet_env "[1, 2]"]
    l1 l2 h1 h2
  show ?thesis by (simp add: p c)
qed

section \<open>A directory in the way of a file\<close>

text \<open>
  C10. When \<open>__setitem__\<close> takes the branch that writes a file and a
  directory stands at the destination path, nothing beneath that path is
  left afterwards, whatever the outcome; and when the containing directory
  is there, the temporary path is free and the medium keeps the bytes, the
  call returns normally with the value as a file at the path.
\<close>

theorem C10_directory_in_the_way:
  assumes branch: "\<not> (write_direct st \<and> \<not> dot_in (normalize_key st k) \<and>
                      \<not> isfile fs (join (path st) (normalize_key st k)))"
    and dir: "isdir fs (join (path st) (normalize_key st k))"
    and ne: "join (path st) (normalize_key st k) \<noteq> []"
  shows "(\<forall>r fs'. setitem st env fs k v = Some (r, fs') \<longrightarrow>
            (\<forall>q. strict_prefix (join (path st) (normalize_key st k)) q \<longrightarrow> lookup fs' q = None)) \<and>
         (isdir fs (butlast (join (path st) (normalize_key st k))) \<and>
          \<not> isdir fs (temp_path_of env (join (path st) (normalize_key st k))) \<and>
          medium env 0 v = v \<longrightarrow>
            (\<exists>fs'. setitem st env fs k v = Some (Inr (), fs') \<and>
                   lookup fs' (join (path st) (normalize_key st k)) = Some (File v)))"
proof -
  define fp where "fp = join (path st) (normalize_key st k)"
  have s: "setitem st env fs k v = setitem_file st env fs fp v"
    using branch by (auto simp: setitem_def Let_def fp_def)
  have fpne: "fp \<noteq> []" using ne by (simp add: fp_def)
  have d: "isdir fs fp" using dir by (simp add: fp_def)
  have A: "lookup fs' q = None" if r: "setitem_file st env fs fp v = Some (r, fs')"
    and q: "strict_prefix fp q" for r fs' q
  proof -
    from q have pq: "prefix fp q" and nq: "q \<noteq> fp" by (auto simp: strict_prefix_def)
    have nt: "q \<noteq> temp_path_of env fp"
      using temp_path_of_facts(4) [OF fpne, of env] pq by auto
    have nb: "\<not> prefix q (butlast fp)"
    proof
      assume "prefix q (butlast fp)"
      with pq have "prefix fp (butlast fp)" by (rule prefix_order.trans)
      then have "length fp \<le> length (butlast fp)" by (rule prefix_length_le)
      with fpne show False by (cases fp rule: rev_cases) auto
    qed
    from setitem_file_frame [OF fpne r nq nt nb] d pq show ?thesis by simp
  qed
  have B: "\<exists>fs'. setitem_file st env fs fp v = Some (Inr (), fs') \<and> lookup fs' fp = Some (File v)"
    if par: "isdir fs (butlast fp)" and tmp: "\<not> isdir fs (temp_path_of env fp)"
      and med: "medium env 0 v = v"
  proof -
    from setitem_file_total [OF fpne par tmp, of st v] med obtain fs'
      where r: "setitem_file st env fs fp v = Some (Inr (), fs')" by auto
    from setitem_file_success(1) [OF fpne r] med have "lookup fs' fp = Some (File v)" by auto
    with r show ?thesis by blast
  qed
  from A B show ?thesis unfolding s fp_def [symmetric] by blast
qed

theorem C10_directory_in_the_way_witness:
  "\<not> (write_direct flat_store \<and> \<not> dot_in (normalize_key flat_store [''arr'', ''0'']) \<and>
       \<not> isfile fs_nested (join (path flat_store) (normalize_key flat_store [''arr'', ''0'']))) \<and>
   isdir fs_nested [''data'', ''arr'', ''0''] \<and>
   lookup fs_nested [''data'', ''arr'', ''0'', ''1''] = Some (File [7]) \<and>
   (\<exists>fs'. setitem flat_store quiet_env fs_nested [''arr'', ''0''] [5] = Some (Inr (), fs') \<and>
          lookup fs' [''data'', ''arr'', ''0''] = Some (File [5]) \<and>
          lookup fs' [''data'', ''arr'', ''0'', ''1''] = None)"
proof -
  have p: "join (path flat_store) (normalize_key flat_store [''arr'', ''0'']) = [''data'', ''arr'', ''0'']"
    by (simp add: join_def normalize_key_def flat_store_def example_store_def)
  have b: "\<not> (write_direct flat_store \<and> \<not> dot_in (normalize_key flat_store [''arr'', ''0'']) \<and>
       \<not> isfile fs_nested (join (path flat_store) (normalize_key flat_store [''arr'', ''0''])))"
    by (simp add: flat_store_def)
  have d: "isdir fs_nested [''data'', ''arr'', ''0'']"
    by (simp add: isdir_def lookup_def fs_nested_def)
  have f: "lookup fs_nested [''data'', ''arr'', ''0'', ''1''] = Some (File [7])"
    by (simp add: lookup_def fs_nested_def)
  have par: "isdir fs_nested (butlast [''data'', ''arr'', ''0''])"
    by (simp add: isdir_def lookup_def fs_nested_def)
  have tmp: "\<not> isdir fs_nested (temp_path_of quiet_env [''data'', ''arr'', ''0''])"
    by (simp add: isdir_def lookup_def fs_nested_def temp_path_of_def join_def quiet_env_def)
  have med: "medium quiet_env 0 [5] = [5]" by (simp add: quiet_env_def)
  have sp: "strict_prefix [''data'', ''arr'', ''0''] [''data'', ''arr'', ''0'', ''1'']"
    by (simp add: strict_prefix_def)
  note inst = C10_directory_in_the_way [of flat_store "[''arr'', ''0'']" fs_nested quiet_env "[5]",
      unfolded p, OF b [unfolded p] d]
  from inst par tmp med obtain fs' where
    r: "setitem flat_store quiet_env fs_nested [''arr'', ''0''] [5] = Some (Inr (), fs')"
    and l: "lookup fs' [''data'', ''arr'', ''0''] = Some (File [5])"
    by auto
  from inst r sp have "lookup fs' [''data'', ''arr'', ''0'', ''1''] = None" by blast
  with r l b d f show ?thesis by blast
qed

section \<open>Writing a key into its container\<close>

lemma add_ext_facts:
  "add_ext p ext \<noteq> []" "\<exists>s. last (add_ext p ext) = s @ ext"
  by (cases p; simp)+

lemma archive_facts:
  "fst (get_archive_key_name st p) \<noteq> []"
  "\<exists>s. last (fst (get_archive_key_name st p)) = s @ container_ext st"
  by (auto simp: get_archive_key_name_def add_ext_facts split: prod.splits)

lemma archive_neq_key_path:
  assumes "ext_normalized st" and "key \<noteq> []" and "\<not> dot_in key"
  shows "fst (get_archive_key_name st (join base key)) \<noteq> join base key"
proof
  assume eq: "fst (get_archive_key_name st (join base key)) = join base key"
  from archive_facts(2) [of st "join base key"] obtain s
    where "last (join base key) = s @ container_ext st" unfolding eq by blast
  then have l: "last key = s @ container_ext st" using assms(2) by (simp add: join_def)
  from assms(1) have "CHR ''.'' \<in> set (container_ext st)"
    by (auto simp: ext_normalized_def split: list.splits)
  with l have "CHR ''.'' \<in> set (last key)" by simp
  moreover have "last key \<in> set key" using assms(2) by simp
  ultimately show False using assms(3) by (auto simp: dot_in_def)
qed

lemma map_of_new_entry: "map_of (AList.delete key c @ [(key, v)]) key = Some v"
  by (simp add: map_add_def delete_conv')

lemma toh5_first:
  assumes o: "h5_open_append fs (h5_busy env n) archive = Inr c" and ne: "v \<noteq> []"
  shows "toh5 st env archive key v fs n =
           Some (Inr (), fs_put fs archive (H5 (AList.delete key c @ [(key, v)])))"
    and "fromh5 (fs_put fs archive (H5 (AList.delete key c @ [(key, v)]))) archive key = Inr v"
proof -
  have ane: "archive \<noteq> []"
    using o lookup_root [of fs] by (auto simp: h5_open_append_def)
  note a = toh5_attempt_closed(2) [OF o ne, of key]
  show f: "fromh5 (fs_put fs archive (H5 (AList.delete key c @ [(key, v)]))) archive key = Inr v"
    using ane map_of_new_entry [of key c v]
    by (simp add: fromh5_def h5_open_read_def lookup_fs_put)
  show "toh5 st env archive key v fs n =
           Some (Inr (), fs_put fs archive (H5 (AList.delete key c @ [(key, v)])))"
    by (subst toh5.simps) (simp add: a f)
qed

lemma write_direct_frame:
  assumes res: "write_direct_to_h5 st env fs fp v = Some (r, fs')"
  shows "q \<noteq> fst (get_archive_key_name st fp) \<Longrightarrow>
           lookup fs' q = lookup fs q \<or> (lookup fs q = None \<and> lookup fs' q = Some Dir)"
    and "r = Inr () \<Longrightarrow> auto_verify_write st \<Longrightarrow> \<not> distribuited st \<Longrightarrow>
           fromh5 fs' (fst (get_archive_key_name st fp)) (snd (get_archive_key_name st fp)) = Inr v"
proof -
  obtain archive key where c: "get_archive_key_name st fp = (archive, key)"
    by (cases "get_archive_key_name st fp")
  have ane: "archive \<noteq> []" using archive_facts(1) [of st fp] c by simp
  then have sp: "fst (split_path archive) = butlast archive" by (simp add: split_path_nonempty)
  have unf: "write_direct_to_h5 st env fs fp v =
      (case makedirs fs (butlast archive) True of
         Inl e \<Rightarrow> Some (Inl e, fs)
       | Inr fs1 \<Rightarrow>
           if distribuited st
           then (case toh5 st env archive key v fs1 0 of
                   None \<Rightarrow> None
                 | Some (r, fs2) \<Rightarrow> Some (Inr (), fs2))
           else toh5 st env archive key v fs1 0)"
    by (simp add: write_direct_to_h5_def c sp)
  show "lookup fs' q = lookup fs q \<or> (lookup fs q = None \<and> lookup fs' q = Some Dir)"
    if "q \<noteq> fst (get_archive_key_name st fp)"
  proof (cases "makedirs fs (butlast archive) True")
    case (Inl e)
    with res unf have "fs' = fs" by simp
    then show ?thesis by simp
  next
    case (Inr fs1)
    with res unf obtain r2 where t2: "toh5 st env archive key v fs1 0 = Some (r2, fs')"
      by (auto split: if_splits option.splits)
    from that c have "q \<noteq> archive" by simp
    with toh5_result [OF t2] have "lookup fs' q = lookup fs1 q" by simp
    with makedirs_lookup [OF Inr, of q] show ?thesis by auto
  qed
  show "fromh5 fs' (fst (get_archive_key_name st fp)) (snd (get_archive_key_name st fp)) = Inr v"
    if "r = Inr ()" "auto_verify_write st" "\<not> distribuited st"
  proof (cases "makedirs fs (butlast archive) True")
    case (Inl e)
    with res unf that show ?thesis by simp
  next
    case (Inr fs1)
    with res unf that have t2: "toh5 st env archive key v fs1 0 = Some (r, fs')" by simp
    from toh5_result [OF t2] that c show ?thesis by simp
  qed
qed

lemma write_direct_lands:
  assumes ok: "can_append env fs (fst (get_archive_key_name st fp))"
    and vne: "v \<noteq> [] \<or> \<not> distribuited st"
  shows "write_direct_to_h5 st env fs fp v = Some (Inr (), fs') \<Longrightarrow>
           fromh5 fs' (fst (get_archive_key_name st fp)) (snd (get_archive_key_name st fp)) = Inr v"
    and "makedirs fs (butlast (fst (get_archive_key_name st fp))) True = Inr fs1 \<Longrightarrow> v \<noteq> [] \<Longrightarrow>
           \<exists>fs'. write_direct_to_h5 st env fs fp v = Some (Inr (), fs')"
proof -
  obtain archive key where c: "get_archive_key_name st fp = (archive, key)"
    by (cases "get_archive_key_name st fp")
  have ane: "archive \<noteq> []" using archive_facts(1) [of st fp] c by simp
  then have sp: "fst (split_path archive) = butlast archive" by (simp add: split_path_nonempty)
  have nb: "\<not> prefix archive (butlast archive)"
  proof
    assume "prefix archive (butlast archive)"
    then have "length archive \<le> length (butlast archive)" by (rule prefix_length_le)
    with ane show False by (cases archive rule: rev_cases) auto
  qed
  have unf: "write_direct_to_h5 st env fs fp v =
      (case makedirs fs (butlast archive) True of
         Inl e \<Rightarrow> Some (Inl e, fs)
       | Inr fs1 \<Rightarrow>
           if distribuited st
           then (case toh5 st env archive key v fs1 0 of
                   None \<Rightarrow> None
                 | Some (r, fs2) \<Rightarrow> Some (Inr (), fs2))
           else toh5 st env archive key v fs1 0)"
    by (simp add: write_direct_to_h5_def c sp)
  have opens: "\<exists>c. h5_open_append f (h5_busy env 0) archive = Inr c"
    if mk: "makedirs fs (butlast archive) True = Inr f" for f
  proof -
    have same: "lookup f archive = lookup fs archive"
      using makedirs_lookup [OF mk, of archive] nb by auto
    have d: "isdir f (butlast archive)" by (rule makedirs_isdir [OF mk])
    from ok c same d show ?thesis
      by (auto simp: can_append_def h5_open_append_def split: option.splits node.splits)
  qed
  have step: "\<exists>c. toh5 st env archive key v f 0 =
                  Some (Inr (), fs_put f archive (H5 (AList.delete key c @ [(key, v)]))) \<and>
                fromh5 (fs_put f archive (H5 (AList.delete key c @ [(key, v)]))) archive key = Inr v"
    if mk: "makedirs fs (butlast archive) True = Inr f" and ne: "v \<noteq> []" for f
  proof -
    from opens [OF mk] obtain c' where "h5_open_append f (h5_busy env 0) archive = Inr c'" ..
    from toh5_first [OF this ne] show ?thesis by blast
  qed
  have raises: "\<exists>f'. toh5 st env archive key v f 0 = Some (Inl ValueError, f')"
    if mk: "makedirs fs (butlast archive) True = Inr f" and e: "v = []" for f
  proof -
    from opens [OF mk] obtain c' where "h5_open_append f (h5_busy env 0) archive = Inr c'" ..
    from toh5_attempt_closed(3) [OF this e, of key] show ?thesis
      by (subst toh5.simps) simp
  qed
  show "fromh5 fs' (fst (get_archive_key_name st fp)) (snd (get_archive_key_name st fp)) = Inr v"
    if res: "write_direct_to_h5 st env fs fp v = Some (Inr (), fs')"
  proof (cases "makedirs fs (butlast archive) True")
    case (Inl e)
    with res unf show ?thesis by simp
  next
    case (Inr f)
    show ?thesis
    proof (cases "v = []")
      case False
      from step [OF Inr False] res unf Inr c show ?thesis by (auto split: if_splits)
    next
      case True
      with vne have nd: "\<not> distribuited st" by simp
      from raises [OF Inr True] res unf Inr nd show ?thesis by auto
    qed
  qed
  show "\<exists>fs'. write_direct_to_h5 st env fs fp v = Some (Inr (), fs')"
    if "makedirs fs (butlast (fst (get_archive_key_name st fp))) True = Inr fs1" and "v \<noteq> []"
  proof -
    from that c have mk: "makedirs fs (butlast archive) True = Inr fs1" by simp
    from step [OF mk that(2)] unf mk show ?thesis by auto
  qed
qed

section \<open>How long the write loops run\<close>

lemma write_file_ok:
  "\<not> isdir fs fn \<Longrightarrow> isdir fs (butlast fn) \<Longrightarrow>
     write_file fs fn b = Inr (fs_put fs fn (File b))"
  by (simp add: write_file_def exists_path_def isdir_def)

lemma writable_again:
  assumes "\<not> isdir fs fn" "isdir fs (butlast fn)"
  shows "\<not> isdir (fs_put fs fn (File b)) fn" "isdir (fs_put fs fn (File b)) (butlast fn)"
proof -
  have ne: "fn \<noteq> []" using assms(1) lookup_root [of fs] by (auto simp: isdir_def)
  then have "butlast fn \<noteq> fn" by (cases fn rule: rev_cases) auto
  then show "isdir (fs_put fs fn (File b)) (butlast fn)"
    using assms(2) by (auto simp: isdir_def lookup_fs_put lookup_root)
  show "\<not> isdir (fs_put fs fn (File b)) fn" using ne by (simp add: isdir_def lookup_fs_put)
qed

lemma fromfile_put: "fn \<noteq> [] \<Longrightarrow> fromfile env (fs_put fs fn (File b)) fn = Inr b"
  by (simp add: fromfile_def lookup_fs_put)

lemma tofile_retry:
  assumes v: "auto_verify_write st" and w: "\<not> isdir fs fn" "isdir fs (butlast fn)"
    and bad: "medium env n a \<noteq> a"
  shows "tofile st env a fn fs n = tofile st env a fn (fs_put fs fn (File (medium env n a))) (Suc n)"
proof -
  have ne: "fn \<noteq> []" using w(1) lookup_root [of fs] by (auto simp: isdir_def)
  show ?thesis
    by (subst tofile.simps) (simp add: write_file_ok [OF w] fromfile_put [OF ne] v bad)
qed

lemma tofile_returns:
  assumes v: "auto_verify_write st"
  shows "\<not> isdir fs fn \<Longrightarrow> isdir fs (butlast fn) \<Longrightarrow> medium env (n + m) a = a \<Longrightarrow>
         \<exists>fs'. tofile st env a fn fs n = Some (Inr (), fs')"
proof (induction m arbitrary: n fs)
  case 0
  then have "write_file fs fn (medium env n a) = Inr (fs_put fs fn (File (medium env n a)))"
    by (simp add: write_file_ok)
  from tofile_first [OF this, of st] 0 show ?case by auto
next
  case (Suc m)
  show ?case
  proof (cases "medium env n a = a")
    case True
    from Suc.prems have "write_file fs fn (medium env n a) = Inr (fs_put fs fn (File (medium env n a)))"
      by (simp add: write_file_ok)
    from tofile_first [OF this, of st] True show ?thesis by auto
  next
    case False
    note r = tofile_retry [OF v Suc.prems(1,2) False]
    from Suc.prems(3) have "medium env (Suc n + m) a = a" by simp
    from Suc.IH [OF writable_again [OF Suc.prems(1,2)] this] r show ?thesis by simp
  qed
qed

lemma tofile_forever_aux:
  assumes "tofile st env a fn fs n = Some y"
  shows "\<not> (auto_verify_write st \<and> \<not> isdir fs fn \<and> isdir fs (butlast fn) \<and>
            (\<forall>m. medium env (n + m) a \<noteq> a))"
proof (rule tofile.raw_induct [where P = "\<lambda>st env a fn fs n y.
     \<not> (auto_verify_write st \<and> \<not> isdir fs fn \<and> isdir fs (butlast fn) \<and>
            (\<forall>m. medium env (n + m) a \<noteq> a))", OF _ assms])
  fix tf st env a fn fs n y
  assume IH: "\<And>st env a fn fs n y. tf st env a fn fs n = Some y \<Longrightarrow>
     \<not> (auto_verify_write st \<and> \<not> isdir fs fn \<and> isdir fs (butlast fn) \<and>
            (\<forall>m. medium env (n + m) a \<noteq> a))"
    and eq: "(case write_file fs fn (medium env n a) of
        Inl e \<Rightarrow> Some (Inl e, fs)
      | Inr fs1 \<Rightarrow>
          if auto_verify_write st
          then (if fromfile env fs1 fn = Inr a then Some (Inr (), fs1)
                else tf st env a fn fs1 (Suc n))
          else Some (Inr (), fs1)) = Some y"
  show "\<not> (auto_verify_write st \<and> \<not> isdir fs fn \<and> isdir fs (butlast fn) \<and>
            (\<forall>m. medium env (n + m) a \<noteq> a))"
  proof
    assume h: "auto_verify_write st \<and> \<not> isdir fs fn \<and> isdir fs (butlast fn) \<and>
            (\<forall>m. medium env (n + m) a \<noteq> a)"
    then have w: "\<not> isdir fs fn" "isdir fs (butlast fn)" by simp_all
    have ne: "fn \<noteq> []" using w(1) lookup_root [of fs] by (auto simp: isdir_def)
    from h have bad: "medium env n a \<noteq> a" by (metis add.right_neutral)
    from eq h bad have "tf st env a fn (fs_put fs fn (File (medium env n a))) (Suc n) = Some y"
      by (simp add: write_file_ok [OF w] fromfile_put [OF ne])
    from IH [OF this] h writable_again [OF w] show False
      by (metis add_Suc_shift)
  qed
qed

lemma tofile_forever:
  assumes "auto_verify_write st" "\<not> isdir fs fn" "isdir fs (butlast fn)"
    "\<forall>m. medium env (n + m) a \<noteq> a"
  shows "tofile st env a fn fs n = None"
  using tofile_forever_aux [of st env a fn fs n] assms
  by (cases "tofile st env a fn fs n") auto

lemma toh5_attempt_busy:
  "lookup fs archive = Some (H5 c) \<Longrightarrow> h5_busy env n \<Longrightarrow>
     toh5_attempt env archive key v fs n = (Inr (), fs)"
  by (rule toh5_attempt_closed(1) [where e = "OSError EINVAL"]) (simp add: h5_open_append_def)

lemma fromh5_H5:
  "lookup fs archive = Some (H5 c) \<Longrightarrow>
     fromh5 fs archive key = (case map_of c key of None \<Rightarrow> Inl KeyError | Some b \<Rightarrow> Inr b)"
  by (simp add: fromh5_def h5_open_read_def)

lemma toh5_retry:
  assumes v: "auto_verify_write st" and c: "lookup fs archive = Some (H5 c)"
    and b: "h5_busy env n" and old: "map_of c key \<noteq> Some v"
  shows "toh5 st env archive key v fs n = toh5 st env archive key v fs (Suc n)"
  using old
  by (subst toh5.simps)
     (auto simp: toh5_attempt_busy [OF c b] fromh5_H5 [OF c] v split: option.splits)

lemma toh5_free:
  assumes c: "lookup fs archive = Some (H5 c)" and b: "\<not> h5_busy env n" and ne: "v \<noteq> []"
  shows "toh5 st env archive key v fs n =
           Some (Inr (), fs_put fs archive (H5 (AList.delete key c @ [(key, v)])))"
proof -
  have "h5_open_append fs (h5_busy env n) archive = Inr c"
    using c b by (simp add: h5_open_append_def)
  then show ?thesis using ne by (rule toh5_first(1))
qed

lemma toh5_free_empty:
  assumes c: "lookup fs archive = Some (H5 c)" and b: "\<not> h5_busy env n"
  shows "toh5 st env archive key [] fs n =
           Some (Inl ValueError, fs_put fs archive (H5 (AList.delete key c)))"
proof -
  have "h5_open_append fs (h5_busy env n) archive = Inr c"
    using c b by (simp add: h5_open_append_def)
  from toh5_attempt_closed(3) [OF this, of "[]" key] show ?thesis
    by (subst toh5.simps) simp
qed

lemma toh5_present:
  assumes v: "auto_verify_write st" and c: "lookup fs archive = Some (H5 c)"
    and b: "h5_busy env n" and old: "map_of c key = Some v"
  shows "toh5 st env archive key v fs n = Some (Inr (), fs)"
  by (subst toh5.simps) (simp add: toh5_attempt_busy [OF c b] fromh5_H5 [OF c] v old)

lemma toh5_returns:
  assumes v: "auto_verify_write st" and c: "lookup fs archive = Some (H5 c)" and ne: "v \<noteq> []"
  shows "\<not> h5_busy env (n + m) \<Longrightarrow> \<exists>fs'. toh5 st env archive key v fs n = Some (Inr (), fs')"
proof (induction m arbitrary: n)
  case 0
  then show ?case using toh5_free [OF c _ ne, of env n st key] by simp
next
  case (Suc m)
  show ?case
  proof (cases "h5_busy env n")
    case False
    then show ?thesis using toh5_free [OF c _ ne, of env n st key] by simp
  next
    case True
    show ?thesis
    proof (cases "map_of c key = Some v")
      case True
      from toh5_present [OF v c \<open>h5_busy env n\<close> this] show ?thesis by simp
    next
      case False
      from Suc.prems have "\<not> h5_busy env (Suc n + m)" by simp
      from Suc.IH [OF this] toh5_retry [OF v c True False] show ?thesis by simp
    qed
  qed
qed

lemma toh5_raises_empty:
  assumes v: "auto_verify_write st" and c: "lookup fs archive = Some (H5 c)"
    and old: "map_of c key \<noteq> Some []"
  shows "\<not> h5_busy env (n + m) \<Longrightarrow>
         \<exists>fs'. toh5 st env archive key [] fs n = Some (Inl ValueError, fs')"
proof (induction m arbitrary: n)
  case 0
  then show ?case using toh5_free_empty [OF c, of env n st key] by simp
next
  case (Suc m)
  show ?case
  proof (cases "h5_busy env n")
    case False
    then show ?thesis using toh5_free_empty [OF c, of env n st key] by simp
  next
    case True
    from Suc.prems have "\<not> h5_busy env (Suc n + m)" by simp
    from Suc.IH [OF this] toh5_retry [OF v c True old] show ?thesis by simp
  qed
qed

lemma toh5_forever_aux:
  assumes "toh5 st env archive key v fs n = Some y"
  shows "\<not> (auto_verify_write st \<and> (\<exists>c. lookup fs archive = Some (H5 c) \<and> map_of c key \<noteq> Some v) \<and>
            (\<forall>m. h5_busy env (n + m)))"
proof (rule toh5.raw_induct [where P = "\<lambda>st env archive key v fs n y.
     \<not> (auto_verify_write st \<and> (\<exists>c. lookup fs archive = Some (H5 c) \<and> map_of c key \<noteq> Some v) \<and>
            (\<forall>m. h5_busy env (n + m)))", OF _ assms])
  fix th st env archive key v fs n y
  assume IH: "\<And>st env archive key v fs n y. th st env archive key v fs n = Some y \<Longrightarrow>
     \<not> (auto_verify_write st \<and> (\<exists>c. lookup fs archive = Some (H5 c) \<and> map_of c key \<noteq> Some v) \<and>
            (\<forall>m. h5_busy env (n + m)))"
    and eq: "(case toh5_attempt env archive key v fs n of
        (Inl e, fs1) \<Rightarrow> Some (Inl e, fs1)
      | (Inr u, fs1) \<Rightarrow>
          if auto_verify_write st
          then (case fromh5 fs1 archive key of
                  Inr b \<Rightarrow>
                    if b = v then Some (Inr (), fs1)
                    else th st env archive key v fs1 (Suc n)
                | Inl e \<Rightarrow>
                    if e = KeyError then th st env archive key v fs1 (Suc n)
                    else Some (Inl e, fs1))
          else Some (Inr (), fs1)) = Some y"
  show "\<not> (auto_verify_write st \<and> (\<exists>c. lookup fs archive = Some (H5 c) \<and> map_of c key \<noteq> Some v) \<and>
            (\<forall>m. h5_busy env (n + m)))"
  proof
    assume h: "auto_verify_write st \<and>
        (\<exists>c. lookup fs archive = Some (H5 c) \<and> map_of c key \<noteq> Some v) \<and>
        (\<forall>m. h5_busy env (n + m))"
    then obtain c where c: "lookup fs archive = Some (H5 c)" and old: "map_of c key \<noteq> Some v"
      by blast
    from h have b: "h5_busy env n" by (metis add.right_neutral)
    have a: "toh5_attempt env archive key v fs n = (Inr (), fs)"
      by (rule toh5_attempt_busy [OF c b])
    from eq h old have "th st env archive key v fs (Suc n) = Some y"
      unfolding a by (auto simp: fromh5_H5 [OF c] split: option.splits if_splits)
    from IH [OF this] h show False by (metis add_Suc_shift)
  qed
qed

lemma toh5_forever:
  assumes "auto_verify_write st" "lookup fs archive = Some (H5 c)" "map_of c key \<noteq> Some v"
    "\<forall>m. h5_busy env (n + m)"
  shows "toh5 st env archive key v fs n = None"
  using toh5_forever_aux [of st env archive key v fs n] assms
  by (cases "toh5 st env archive key v fs n") auto

lemma toh5_unverified:
  "\<not> auto_verify_write st \<Longrightarrow>
     toh5 st env archive key v fs n = Some (toh5_attempt env archive key v fs n)"
  by (subst toh5.simps) (auto split: prod.splits sum.splits)

section \<open>Setting a key and getting it back\<close>

lemma getitem_file:
  "lookup fs (join (path st) (normalize_key st k)) = Some (File b) \<Longrightarrow>
     getitem st env fs k = Inr b"
  by (simp add: getitem_def Let_def isfile_def fromfile_def)

lemma getitem_container:
  assumes "\<not> isfile fs (join (path st) (normalize_key st k))"
    and "fromh5 fs (fst (get_archive_key_name st (join (path st) (normalize_key st k))))
       (snd (get_archive_key_name st (join (path st) (normalize_key st k)))) = Inr b"
  shows "getitem st env fs k = Inr b"
proof -
  let ?fp = "join (path st) (normalize_key st k)"
  obtain archive h_key where c: "get_archive_key_name st ?fp = (archive, h_key)"
    by (cases "get_archive_key_name st ?fp")
  from assms c have r: "fromh5 fs archive h_key = Inr b" by simp
  then have "isfile fs archive"
    by (auto simp: fromh5_def h5_open_read_def isfile_def split: option.splits node.splits)
  with assms(1) c r show ?thesis
    by (simp add: getitem_def Let_def read_direct_to_h5_def)
qed

lemma normalize_key_nonempty: "k \<noteq> [] \<Longrightarrow> normalize_key st k \<noteq> []"
  by (simp add: normalize_key_def)

text \<open>
  C1 (as the code has it). When \<open>__setitem__\<close> returns normally for a key
  and its write is not lost, \<open>__getitem__\<close> on the key returns exactly the
  bytes that were set, for a key written into its container and for a key
  written as a file alike. A write is lost without an exception when
  \<open>_toh5\<close> passes over the \<open>OSError\<close> of opening the container and
  verification is off, as the tree with a plain file at the container's path
  shows; and under the lock when the put has no bytes, where the
  \<open>ValueError\<close> of \<open>create_dataset\<close> is passed over.
\<close>

theorem C1_set_then_get:
  assumes ext: "ext_normalized st" and kne: "k \<noteq> []"
    and res: "setitem st env fs k v = Some (Inr (), fs')"
    and eff: "takes_effect st env fs k v"
  shows "getitem st env fs' k = Inr v"
proof -
  define key where "key = normalize_key st k"
  define fp where "fp = join (path st) key"
  have keyne: "key \<noteq> []" using kne by (simp add: key_def normalize_key_nonempty)
  then have fpne: "fp \<noteq> []" by (simp add: fp_def join_def)
  show ?thesis
  proof (cases "write_direct st \<and> \<not> dot_in key \<and> \<not> isfile fs fp")
    case True
    then have w: "write_direct_to_h5 st env fs fp v = Some (Inr (), fs')"
      using res by (simp add: setitem_def Let_def key_def fp_def)
    from eff True have e: "(can_append env fs (fst (get_archive_key_name st fp)) \<and>
          (v \<noteq> [] \<or> \<not> distribuited st)) \<or>
        (auto_verify_write st \<and> \<not> distribuited st)"
      by (simp add: takes_effect_def Let_def key_def fp_def)
    have h: "fromh5 fs' (fst (get_archive_key_name st fp)) (snd (get_archive_key_name st fp)) = Inr v"
      using e write_direct_lands(1) [OF _ _ w] write_direct_frame(2) [OF w] by blast
    have "fp \<noteq> fst (get_archive_key_name st fp)"
      using archive_neq_key_path [OF ext keyne, of "path st"] True by (auto simp: fp_def)
    from write_direct_frame(1) [OF w this] True have nf: "\<not> isfile fs' fp"
      by (auto simp: isfile_def split: option.splits node.splits)
    from nf h show ?thesis
      unfolding fp_def key_def by (rule getitem_container)
  next
    case False
    then have w: "setitem_file st env fs fp v = Some (Inr (), fs')"
      using res by (auto simp: setitem_def Let_def key_def fp_def)
    from eff False have e: "medium env 0 v = v \<or> auto_verify_write st"
      by (auto simp: takes_effect_def Let_def key_def fp_def)
    from setitem_file_success(1) [OF fpne w] e have "lookup fs' fp = Some (File v)" by auto
    then show ?thesis unfolding fp_def key_def by (rule getitem_file)
  qed
qed

theorem C1_set_then_get_counterexample:
  "setitem example_store quiet_env fs_blocked [''arr'', ''0'', ''4'', ''6'', ''7''] [1, 2]
      = Some (Inr (), fs_blocked) \<and>
   getitem example_store quiet_env fs_blocked [''arr'', ''0'', ''4'', ''6'', ''7'']
      = Inl KeyError"
proof -
  have c: "get_archive_key_name example_store [''data'', ''arr'', ''0'', ''4'', ''6'', ''7'']
      = ([''data'', ''arr'', ''0'', ''4.h5''], ''6.7'')"
    by (simp add: get_archive_key_name_def example_store_def)
  have mk: "makedirs fs_blocked [''data'', ''arr'', ''0''] True = Inr fs_blocked"
    by (subst makedirs.simps)
       (simp add: mkdir_def exists_path_def isdir_def lookup_def fs_blocked_def)
  have at: "toh5_attempt quiet_env [''data'', ''arr'', ''0'', ''4.h5''] ''6.7'' [1, 2] fs_blocked 0
      = (Inr (), fs_blocked)"
    by (rule toh5_attempt_closed(1) [where e = "OSError EINVAL"])
       (simp add: h5_open_append_def lookup_def fs_blocked_def)
  have t: "toh5 example_store quiet_env [''data'', ''arr'', ''0'', ''4.h5''] ''6.7'' [1, 2] fs_blocked 0
      = Some (Inr (), fs_blocked)"
    by (subst toh5.simps) (simp add: at example_store_def)
  have nf: "\<not> isfile fs_blocked [''data'', ''arr'', ''0'', ''4'', ''6'', ''7'']"
    by (simp add: isfile_def lookup_def fs_blocked_def)
  have af: "isfile fs_blocked [''data'', ''arr'', ''0'', ''4.h5'']"
    by (simp add: isfile_def lookup_def fs_blocked_def)
  have rd: "fromh5 fs_blocked [''data'', ''arr'', ''0'', ''4.h5''] ''6.7'' = Inl (OSError EINVAL)"
    by (simp add: fromh5_def h5_open_read_def lookup_def fs_blocked_def)
  have s: "setitem example_store quiet_env fs_blocked [''arr'', ''0'', ''4'', ''6'', ''7''] [1, 2]
      = Some (Inr (), fs_blocked)"
    using nf c mk t
    by (simp add: setitem_def write_direct_to_h5_def Let_def normalize_key_def join_def
        dot_in_def example_store_def)
  have g: "getitem example_store quiet_env fs_blocked [''arr'', ''0'', ''4'', ''6'', ''7'']
      = Inl KeyError"
    using nf c af rd
    by (simp add: getitem_def read_direct_to_h5_def Let_def normalize_key_def join_def
        example_store_def)
  from s g show ?thesis by simp
qed


theorem C1_set_then_get_witness:
  "ext_normalized example_store \<and>
   takes_effect example_store quiet_env fs_shard [''arr'', ''0'', ''4'', ''6'', ''9''] [3] \<and>
   (\<exists>fs'. setitem example_store quiet_env fs_shard [''arr'', ''0'', ''4'', ''6'', ''9''] [3]
            = Some (Inr (), fs') \<and>
          getitem example_store quiet_env fs' [''arr'', ''0'', ''4'', ''6'', ''9''] = Inr [3]) \<and>
   takes_effect example_store quiet_env fs_shard [''arr'', ''.zarray''] [4] \<and>
   (\<exists>fs'. setitem example_store quiet_env fs_shard [''arr'', ''.zarray''] [4]
            = Some (Inr (), fs') \<and>
          getitem example_store quiet_env fs' [''arr'', ''.zarray''] = Inr [4])"
proof -
  have ext: "ext_normalized example_store"
    by (simp add: ext_normalized_def example_store_def)
  have c: "get_archive_key_name example_store [''data'', ''arr'', ''0'', ''4'', ''6'', ''9'']
      = ([''data'', ''arr'', ''0'', ''4.h5''], ''6.9'')"
    by (simp add: get_archive_key_name_def example_store_def)
  have nf: "\<not> isfile fs_shard [''data'', ''arr'', ''0'', ''4'', ''6'', ''9'']"
    by (simp add: isfile_def lookup_def fs_shard_def)
  have ca: "can_append quiet_env fs_shard [''data'', ''arr'', ''0'', ''4.h5'']"
    by (simp add: can_append_def lookup_def fs_shard_def quiet_env_def)
  have mk: "makedirs fs_shard [''data'', ''arr'', ''0''] True = Inr fs_shard"
    by (subst makedirs.simps)
       (simp add: mkdir_def exists_path_def isdir_def lookup_def fs_shard_def)
  have e1: "takes_effect example_store quiet_env fs_shard [''arr'', ''0'', ''4'', ''6'', ''9''] [3]"
    using nf c ca
    by (simp add: takes_effect_def Let_def normalize_key_def join_def dot_in_def example_store_def)
  have d1: "setitem example_store quiet_env fs_shard [''arr'', ''0'', ''4'', ''6'', ''9''] [3]
      = write_direct_to_h5 example_store quiet_env fs_shard
          [''data'', ''arr'', ''0'', ''4'', ''6'', ''9''] [3]"
    using nf
    by (simp add: setitem_def Let_def normalize_key_def join_def dot_in_def example_store_def)
  from write_direct_lands(2) [of quiet_env fs_shard example_store
      "[''data'', ''arr'', ''0'', ''4'', ''6'', ''9'']" "[3]" fs_shard] c ca mk d1
  obtain fs1 where s1: "setitem example_store quiet_env fs_shard
      [''arr'', ''0'', ''4'', ''6'', ''9''] [3] = Some (Inr (), fs1)"
    by auto
  have g1: "getitem example_store quiet_env fs1 [''arr'', ''0'', ''4'', ''6'', ''9''] = Inr [3]"
    by (rule C1_set_then_get [OF ext _ s1 e1]) simp
  have e2: "takes_effect example_store quiet_env fs_shard [''arr'', ''.zarray''] [4]"
    by (simp add: takes_effect_def Let_def normalize_key_def join_def dot_in_def
        example_store_def quiet_env_def)
  have d2: "setitem example_store quiet_env fs_shard [''arr'', ''.zarray''] [4]
      = setitem_file example_store quiet_env fs_shard [''data'', ''arr'', ''.zarray''] [4]"
    by (simp add: setitem_def Let_def normalize_key_def join_def dot_in_def example_store_def)
  have "\<exists>fs'. setitem_file example_store quiet_env fs_shard [''data'', ''arr'', ''.zarray''] [4]
      = Some (Inr (), fs')"
    by (rule setitem_file_total)
       (simp_all add: isdir_def lookup_def fs_shard_def temp_path_of_def join_def
          quiet_env_def example_store_def)
  then obtain fs2 where s2: "setitem example_store quiet_env fs_shard [''arr'', ''.zarray''] [4]
      = Some (Inr (), fs2)"
    using d2 by auto
  have g2: "getitem example_store quiet_env fs2 [''arr'', ''.zarray''] = Inr [4]"
    by (rule C1_set_then_get [OF ext _ s2 e2]) simp
  from ext e1 s1 g1 e2 s2 g2 show ?thesis by blast
qed

text \<open>
  Under the lock a put of no bytes returns normally and stores nothing: the
  \<open>ValueError\<close> of \<open>create_dataset\<close> is printed and passed over.
\<close>

lemma set_no_bytes_under_lock:
  "setitem lock_store quiet_env fs_shard [''arr'', ''0'', ''4'', ''6'', ''9''] []
      = Some (Inr (), fs_put fs_shard [''data'', ''arr'', ''0'', ''4.h5''] (H5 [(''6.7'', [1, 2])])) \<and>
   getitem lock_store quiet_env
      (fs_put fs_shard [''data'', ''arr'', ''0'', ''4.h5''] (H5 [(''6.7'', [1, 2])]))
      [''arr'', ''0'', ''4'', ''6'', ''9''] = Inl KeyError"
proof -
  have c: "get_archive_key_name lock_store [''data'', ''arr'', ''0'', ''4'', ''6'', ''9'']
      = ([''data'', ''arr'', ''0'', ''4.h5''], ''6.9'')"
    by (simp add: get_archive_key_name_def lock_store_def verify_store_def example_store_def)
  have mk: "makedirs fs_shard [''data'', ''arr'', ''0''] True = Inr fs_shard"
    by (subst makedirs.simps)
       (simp add: mkdir_def exists_path_def isdir_def lookup_def fs_shard_def)
  have o: "h5_open_append fs_shard (h5_busy quiet_env 0) [''data'', ''arr'', ''0'', ''4.h5'']
      = Inr [(''6.7'', [1, 2])]"
    by (simp add: h5_open_append_def lookup_def fs_shard_def quiet_env_def isdir_def)
  have at: "toh5_attempt quiet_env [''data'', ''arr'', ''0'', ''4.h5''] ''6.9'' [] fs_shard 0
      = (Inl ValueError, fs_put fs_shard [''data'', ''arr'', ''0'', ''4.h5''] (H5 [(''6.7'', [1, 2])]))"
    using toh5_attempt_closed(3) [OF o, of "[]" "''6.9''"] by simp
  have t: "toh5 lock_store quiet_env [''data'', ''arr'', ''0'', ''4.h5''] ''6.9'' [] fs_shard 0
      = Some (Inl ValueError,
          fs_put fs_shard [''data'', ''arr'', ''0'', ''4.h5''] (H5 [(''6.7'', [1, 2])]))"
    by (subst toh5.simps) (simp add: at)
  have nf: "\<not> isfile fs_shard [''data'', ''arr'', ''0'', ''4'', ''6'', ''9'']"
    by (simp add: isfile_def lookup_def fs_shard_def)
  have s: "setitem lock_store quiet_env fs_shard [''arr'', ''0'', ''4'', ''6'', ''9''] []
      = Some (Inr (), fs_put fs_shard [''data'', ''arr'', ''0'', ''4.h5''] (H5 [(''6.7'', [1, 2])]))"
    using nf c mk t
    by (simp add: setitem_def write_direct_to_h5_def Let_def normalize_key_def join_def
        dot_in_def lock_store_def verify_store_def example_store_def)
  have nf2: "\<not> isfile (fs_put fs_shard [''data'', ''arr'', ''0'', ''4.h5''] (H5 [(''6.7'', [1, 2])]))
      [''data'', ''arr'', ''0'', ''4'', ''6'', ''9'']"
    by (simp add: isfile_def lookup_fs_put) (simp add: lookup_def fs_shard_def)
  have rd: "fromh5 (fs_put fs_shard [''data'', ''arr'', ''0'', ''4.h5''] (H5 [(''6.7'', [1, 2])]))
      [''data'', ''arr'', ''0'', ''4.h5''] ''6.9'' = Inl KeyError"
    by (simp add: fromh5_def h5_open_read_def lookup_fs_put)
  have g: "getitem lock_store quiet_env
      (fs_put fs_shard [''data'', ''arr'', ''0'', ''4.h5''] (H5 [(''6.7'', [1, 2])]))
      [''arr'', ''0'', ''4'', ''6'', ''9''] = Inl KeyError"
    using nf2 c rd
    by (simp add: getitem_def read_direct_to_h5_def Let_def normalize_key_def join_def
        lock_store_def verify_store_def example_store_def)
  from s g show ?thesis by simp
qed

section \<open>Where a key is written\<close>

lemma dot_in_file_name_dot_in: "dot_in_file_name key \<Longrightarrow> dot_in key"
proof -
  assume a: "dot_in_file_name key"
  then have ne: "key \<noteq> []" by (auto simp: dot_in_file_name_def)
  then have "last key \<in> set key" by simp
  moreover from a ne have "CHR ''.'' \<in> set (last key)"
    by (auto simp: dot_in_file_name_def split: list.splits)
  ultimately show ?thesis by (auto simp: dot_in_def)
qed

lemma temp_path_of_length: "fp \<noteq> [] \<Longrightarrow> length (temp_path_of env fp) = length fp"
  by (simp add: temp_path_of_nonempty)

text \<open>The container of a path with more segments than the codec folds.\<close>

lemma archive_apart:
  assumes ext: "ext_normalized st" and deep: "folded st < length p"
  shows "length (fst (get_archive_key_name st p)) < length p"
    and "\<not> prefix (fst (get_archive_key_name st p)) (butlast p)"
proof -
  define t where "t = take (length p - folded st) p"
  have k: "0 < folded st" by (simp add: folded_def)
  have tne: "t \<noteq> []" using deep by (auto simp: t_def)
  have lt: "length t = length p - folded st" by (simp add: t_def)
  have a: "fst (get_archive_key_name st p) = butlast t @ [last t @ container_ext st]"
    using get_archive_key_name_segments [OF deep] tne
    by (cases t) (simp_all add: t_def [symmetric])
  have la: "length (fst (get_archive_key_name st p)) = length t"
    using tne by (simp add: a)
  show "length (fst (get_archive_key_name st p)) < length p"
    using la lt deep k by simp
  show "\<not> prefix (fst (get_archive_key_name st p)) (butlast p)"
  proof
    assume "prefix (fst (get_archive_key_name st p)) (butlast p)"
    then have "fst (get_archive_key_name st p) = take (length t) (butlast p)"
      unfolding la [symmetric] by (metis append_eq_conv_conj prefix_def)
    also have "\<dots> = take (length t) p"
      using lt deep k by (simp add: butlast_conv_take min_def)
    also have "\<dots> = t" by (simp add: t_def)
    finally have "butlast t @ [last t @ container_ext st] = butlast t @ [last t]"
      using a tne by simp
    then have "container_ext st = []" by simp
    with ext show False by (simp add: ext_normalized_def)
  qed
qed

text \<open>
  C5 (as the code has it). \<open>__setitem__\<close> writes into the container of the
  key when direct writing is enabled, the key has no dot and no file stands
  at the path of the key: then no file appears at that path, only the
  container and new directories differ afterwards, and the container holds
  the value when the call returns normally, the first open succeeded and
  there were bytes to store. It takes the file path when direct writing is
  disabled, or the file name of the key has a dot (anywhere in it, not only
  at its start), or a file stands at the path of the key: then the container
  of the key is left as it was, and a call that returns normally leaves the
  value as a file at the path, in a directory, with no temporary file left.
  Nothing is said of a key whose only dots are in segments before the last:
  the comment above the guard speaks of the file name, and the guard tests
  the whole key. The key \<open>arr/0/4/6/7.5\<close>, whose file name has a dot that
  is not at its start, is written as a file beside its container.
\<close>

theorem C5_where_set_writes:
  assumes ext: "ext_normalized st" and kne: "k \<noteq> []"
    and deep: "folded st < length (join (path st) (normalize_key st k))"
    and res: "setitem st env fs k v = Some (r, fs')"
  shows "(write_direct st \<and> \<not> dot_in (normalize_key st k) \<and>
          \<not> isfile fs (join (path st) (normalize_key st k)) \<longrightarrow>
            \<not> isfile fs' (join (path st) (normalize_key st k)) \<and>
            (\<forall>q. q \<noteq> fst (get_archive_key_name st (join (path st) (normalize_key st k))) \<longrightarrow>
                 lookup fs' q = lookup fs q \<or> (lookup fs q = None \<and> lookup fs' q = Some Dir)) \<and>
            (r = Inr () \<and> v \<noteq> [] \<and>
             can_append env fs (fst (get_archive_key_name st (join (path st) (normalize_key st k)))) \<longrightarrow>
               fromh5 fs' (fst (get_archive_key_name st (join (path st) (normalize_key st k))))
                 (snd (get_archive_key_name st (join (path st) (normalize_key st k)))) = Inr v)) \<and>
         (\<not> write_direct st \<or> dot_in_file_name (normalize_key st k) \<or>
          isfile fs (join (path st) (normalize_key st k)) \<longrightarrow>
            lookup fs' (fst (get_archive_key_name st (join (path st) (normalize_key st k)))) =
              lookup fs (fst (get_archive_key_name st (join (path st) (normalize_key st k)))) \<and>
            (r = Inr () \<longrightarrow>
               (\<exists>m. lookup fs' (join (path st) (normalize_key st k)) = Some (File (medium env m v))) \<and>
               isdir fs' (butlast (join (path st) (normalize_key st k))) \<and>
               lookup fs' (temp_path_of env (join (path st) (normalize_key st k))) = None))"
proof -
  define key where "key = normalize_key st k"
  define fp where "fp = join (path st) key"
  define archive where "archive = fst (get_archive_key_name st fp)"
  have keyne: "key \<noteq> []" using kne by (simp add: key_def normalize_key_nonempty)
  then have fpne: "fp \<noteq> []" by (simp add: fp_def join_def)
  have dp: "folded st < length fp" using deep by (simp add: fp_def key_def)
  have D: "\<not> isfile fs' fp \<and>
      (\<forall>q. q \<noteq> archive \<longrightarrow>
           lookup fs' q = lookup fs q \<or> (lookup fs q = None \<and> lookup fs' q = Some Dir)) \<and>
      (r = Inr () \<and> v \<noteq> [] \<and> can_append env fs archive \<longrightarrow>
         fromh5 fs' archive (snd (get_archive_key_name st fp)) = Inr v)"
    if c: "write_direct st \<and> \<not> dot_in key \<and> \<not> isfile fs fp"
  proof -
    from c have w: "write_direct_to_h5 st env fs fp v = Some (r, fs')"
      using res by (simp add: setitem_def Let_def key_def fp_def)
    have "fp \<noteq> fst (get_archive_key_name st fp)"
      using archive_neq_key_path [OF ext keyne, of "path st"] c by (auto simp: fp_def)
    from write_direct_frame(1) [OF w this] c have nf: "\<not> isfile fs' fp"
      by (auto simp: isfile_def split: option.splits node.splits)
    have fr: "\<forall>q. q \<noteq> archive \<longrightarrow>
           lookup fs' q = lookup fs q \<or> (lookup fs q = None \<and> lookup fs' q = Some Dir)"
      unfolding archive_def using write_direct_frame(1) [OF w] by blast
    have "fromh5 fs' archive (snd (get_archive_key_name st fp)) = Inr v"
      if "r = Inr ()" "v \<noteq> []" "can_append env fs archive"
      using write_direct_lands(1) [OF that(3) [unfolded archive_def] disjI1 [OF that(2)]] w that(1)
      by (simp add: archive_def)
    with nf fr show ?thesis by blast
  qed
  have F: "lookup fs' archive = lookup fs archive \<and>
      (r = Inr () \<longrightarrow>
         (\<exists>m. lookup fs' fp = Some (File (medium env m v))) \<and> isdir fs' (butlast fp) \<and>
         lookup fs' (temp_path_of env fp) = None)"
    if c: "\<not> write_direct st \<or> dot_in_file_name key \<or> isfile fs fp"
  proof -
    from c have "\<not> (write_direct st \<and> \<not> dot_in key \<and> \<not> isfile fs fp)"
      using dot_in_file_name_dot_in by blast
    then have w: "setitem_file st env fs fp v = Some (r, fs')"
      using res by (auto simp: setitem_def Let_def key_def fp_def)
    note ap = archive_apart [OF ext dp]
    have la: "length archive < length fp" using ap(1) by (simp add: archive_def)
    then have q1: "archive \<noteq> fp" by auto
    have q2: "archive \<noteq> temp_path_of env fp"
      using la temp_path_of_length [OF fpne, of env] by auto
    have q3: "\<not> prefix archive (butlast fp)" using ap(2) by (simp add: archive_def)
    have np: "\<not> prefix fp archive"
    proof
      assume "prefix fp archive"
      then have "length fp \<le> length archive" by (rule prefix_length_le)
      with la show False by simp
    qed
    from setitem_file_frame [OF fpne w q1 q2 q3] np
    have a: "lookup fs' archive = lookup fs archive" by simp
    have "(\<exists>m. lookup fs' fp = Some (File (medium env m v))) \<and> isdir fs' (butlast fp) \<and>
         lookup fs' (temp_path_of env fp) = None"
      if "r = Inr ()"
      using setitem_file_success [OF fpne w [unfolded that]] by blast
    with a show ?thesis by blast
  qed
  from D F show ?thesis unfolding archive_def fp_def key_def by blast
qed

theorem C5_where_set_writes_witness:
  "ext_normalized example_store \<and>
   folded example_store < length [''data'', ''arr'', ''0'', ''4'', ''6'', ''9''] \<and>
   write_direct example_store \<and>
   \<not> dot_in (normalize_key example_store [''arr'', ''0'', ''4'', ''6'', ''9'']) \<and>
   \<not> isfile fs_shard [''data'', ''arr'', ''0'', ''4'', ''6'', ''9''] \<and>
   can_append quiet_env fs_shard [''data'', ''arr'', ''0'', ''4.h5''] \<and>
   (\<exists>fs'. setitem example_store quiet_env fs_shard [''arr'', ''0'', ''4'', ''6'', ''9''] [3]
            = Some (Inr (), fs') \<and>
          \<not> isfile fs' [''data'', ''arr'', ''0'', ''4'', ''6'', ''9''] \<and>
          fromh5 fs' [''data'', ''arr'', ''0'', ''4.h5''] ''6.9'' = Inr [3]) \<and>
   folded example_store < length [''data'', ''arr'', ''.zarray''] \<and>
   dot_in_file_name (normalize_key example_store [''arr'', ''.zarray'']) \<and>
   (\<exists>fs'. setitem example_store quiet_env fs_shard [''arr'', ''.zarray''] [4]
            = Some (Inr (), fs') \<and>
          lookup fs' [''data'', ''arr'', ''.zarray''] = Some (File [4]) \<and>
          isdir fs' [''data'', ''arr''] \<and>
          lookup fs' (fst (get_archive_key_name example_store [''data'', ''arr'', ''.zarray''])) =
            lookup fs_shard (fst (get_archive_key_name example_store [''data'', ''arr'', ''.zarray''])))"
proof -
  have ext: "ext_normalized example_store"
    by (simp add: ext_normalized_def example_store_def)
  have p1: "join (path example_store) (normalize_key example_store [''arr'', ''0'', ''4'', ''6'', ''9''])
      = [''data'', ''arr'', ''0'', ''4'', ''6'', ''9'']"
    by (simp add: join_def normalize_key_def example_store_def)
  have p2: "join (path example_store) (normalize_key example_store [''arr'', ''.zarray''])
      = [''data'', ''arr'', ''.zarray'']"
    by (simp add: join_def normalize_key_def example_store_def)
  have k1: "folded example_store < length [''data'', ''arr'', ''0'', ''4'', ''6'', ''9'']"
    by (simp add: folded_def example_store_def)
  have k2: "folded example_store < length [''data'', ''arr'', ''.zarray'']"
    by (simp add: folded_def example_store_def)
  have c: "get_archive_key_name example_store [''data'', ''arr'', ''0'', ''4'', ''6'', ''9'']
      = ([''data'', ''arr'', ''0'', ''4.h5''], ''6.9'')"
    by (simp add: get_archive_key_name_def example_store_def)
  have nf: "\<not> isfile fs_shard [''data'', ''arr'', ''0'', ''4'', ''6'', ''9'']"
    by (simp add: isfile_def lookup_def fs_shard_def)
  have wd: "write_direct example_store" by (simp add: example_store_def)
  have nd: "\<not> dot_in (normalize_key example_store [''arr'', ''0'', ''4'', ''6'', ''9''])"
    by (simp add: normalize_key_def dot_in_def example_store_def)
  have dn: "dot_in_file_name (normalize_key example_store [''arr'', ''.zarray''])"
    by (simp add: normalize_key_def dot_in_file_name_def example_store_def)
  have ca: "can_append quiet_env fs_shard [''data'', ''arr'', ''0'', ''4.h5'']"
    by (simp add: can_append_def lookup_def fs_shard_def quiet_env_def)
  have mk: "makedirs fs_shard [''data'', ''arr'', ''0''] True = Inr fs_shard"
    by (subst makedirs.simps)
       (simp add: mkdir_def exists_path_def isdir_def lookup_def fs_shard_def)
  have d1: "setitem example_store quiet_env fs_shard [''arr'', ''0'', ''4'', ''6'', ''9''] [3]
      = write_direct_to_h5 example_store quiet_env fs_shard
          [''data'', ''arr'', ''0'', ''4'', ''6'', ''9''] [3]"
    using wd nd nf by (simp add: setitem_def Let_def p1)
  have "\<exists>fs'. write_direct_to_h5 example_store quiet_env fs_shard
      [''data'', ''arr'', ''0'', ''4'', ''6'', ''9''] [3] = Some (Inr (), fs')"
    by (rule write_direct_lands(2) [where ?fs1.0 = fs_shard]) (simp_all add: c ca mk)
  then obtain fs1 where s1: "setitem example_store quiet_env fs_shard
      [''arr'', ''0'', ''4'', ''6'', ''9''] [3] = Some (Inr (), fs1)"
    using d1 by auto
  note i1 = C5_where_set_writes [OF ext _ _ s1, unfolded p1 c fst_conv snd_conv]
  from i1 k1 wd nd nf ca have r1: "\<not> isfile fs1 [''data'', ''arr'', ''0'', ''4'', ''6'', ''9''] \<and>
          fromh5 fs1 [''data'', ''arr'', ''0'', ''4.h5''] ''6.9'' = Inr [3]"
    by simp
  have d2: "setitem example_store quiet_env fs_shard [''arr'', ''.zarray''] [4]
      = setitem_file example_store quiet_env fs_shard [''data'', ''arr'', ''.zarray''] [4]"
    using dot_in_file_name_dot_in [OF dn] by (auto simp: setitem_def Let_def p2)
  have "\<exists>fs'. setitem_file example_store quiet_env fs_shard [''data'', ''arr'', ''.zarray''] [4]
      = Some (Inr (), fs')"
    by (rule setitem_file_total)
       (simp_all add: isdir_def lookup_def fs_shard_def temp_path_of_def join_def
          quiet_env_def example_store_def)
  then obtain fs2 where s2: "setitem example_store quiet_env fs_shard [''arr'', ''.zarray''] [4]
      = Some (Inr (), fs2)"
    using d2 by auto
  note i2 = C5_where_set_writes [OF ext _ _ s2, unfolded p2]
  from i2 k2 dn have r2: "lookup fs2 [''data'', ''arr'', ''.zarray''] = Some (File [4]) \<and>
          isdir fs2 [''data'', ''arr''] \<and>
          lookup fs2 (fst (get_archive_key_name example_store [''data'', ''arr'', ''.zarray''])) =
            lookup fs_shard (fst (get_archive_key_name example_store [''data'', ''arr'', ''.zarray'']))"
    by (simp add: quiet_env_def)
  from ext k1 wd nd nf ca s1 r1 k2 dn s2 r2 show ?thesis by blast
qed

theorem C5_where_set_writes_counterexample:
  "write_direct example_store \<and> \<not> final_segment_dotted [''arr'', ''0'', ''4'', ''6'', ''7.5''] \<and>
   \<not> isfile fs_both
      (join (path example_store) (normalize_key example_store [''arr'', ''0'', ''4'', ''6'', ''7.5''])) \<and>
   get_archive_key_name example_store [''data'', ''arr'', ''0'', ''4'', ''6'', ''7.5'']
      = ([''data'', ''arr'', ''0'', ''4.h5''], ''6.7.5'') \<and>
   (\<exists>fs'. setitem example_store quiet_env fs_both [''arr'', ''0'', ''4'', ''6'', ''7.5''] [1]
            = Some (Inr (), fs') \<and>
          lookup fs' [''data'', ''arr'', ''0'', ''4'', ''6'', ''7.5''] = Some (File [1]) \<and>
          fromh5 fs' [''data'', ''arr'', ''0'', ''4.h5''] ''6.7.5'' = Inl KeyError)"
proof -
  have p: "join (path example_store) (normalize_key example_store [''arr'', ''0'', ''4'', ''6'', ''7.5''])
      = [''data'', ''arr'', ''0'', ''4'', ''6'', ''7.5'']"
    by (simp add: join_def normalize_key_def example_store_def)
  have c: "get_archive_key_name example_store [''data'', ''arr'', ''0'', ''4'', ''6'', ''7.5'']
      = ([''data'', ''arr'', ''0'', ''4.h5''], ''6.7.5'')"
    by (simp add: get_archive_key_name_def example_store_def)
  have nf: "\<not> isfile fs_both [''data'', ''arr'', ''0'', ''4'', ''6'', ''7.5'']"
    by (simp add: isfile_def lookup_def fs_both_def)
  have d: "setitem example_store quiet_env fs_both [''arr'', ''0'', ''4'', ''6'', ''7.5''] [1]
      = setitem_file example_store quiet_env fs_both [''data'', ''arr'', ''0'', ''4'', ''6'', ''7.5''] [1]"
    by (simp add: setitem_def Let_def dot_in_def join_def normalize_key_def example_store_def)
  have "\<exists>fs'. setitem_file example_store quiet_env fs_both
      [''data'', ''arr'', ''0'', ''4'', ''6'', ''7.5''] [1] = Some (Inr (), fs')"
    by (rule setitem_file_total)
       (simp_all add: isdir_def lookup_def fs_both_def temp_path_of_def join_def
          quiet_env_def example_store_def)
  then obtain fs' where s: "setitem_file example_store quiet_env fs_both
      [''data'', ''arr'', ''0'', ''4'', ''6'', ''7.5''] [1] = Some (Inr (), fs')"
    by auto
  from setitem_file_success(1) [OF _ s]
  have f: "lookup fs' [''data'', ''arr'', ''0'', ''4'', ''6'', ''7.5''] = Some (File [1])"
    by (simp add: quiet_env_def)
  have "lookup fs' [''data'', ''arr'', ''0'', ''4.h5''] =
      (if isdir fs_both [''data'', ''arr'', ''0'', ''4'', ''6'', ''7.5''] \<and>
          prefix [''data'', ''arr'', ''0'', ''4'', ''6'', ''7.5''] [''data'', ''arr'', ''0'', ''4.h5'']
       then None else lookup fs_both [''data'', ''arr'', ''0'', ''4.h5''])"
    by (rule setitem_file_frame [OF _ s]) (simp_all add: temp_path_of_def join_def)
  then have a: "lookup fs' [''data'', ''arr'', ''0'', ''4.h5''] = Some (H5 [(''6.7'', [1, 2])])"
    by (simp add: lookup_def fs_both_def)
  have r: "fromh5 fs' [''data'', ''arr'', ''0'', ''4.h5''] ''6.7.5'' = Inl KeyError"
    by (simp add: fromh5_H5 [OF a])
  have "write_direct example_store" by (simp add: example_store_def)
  moreover have "\<not> final_segment_dotted [''arr'', ''0'', ''4'', ''6'', ''7.5'']"
    by (simp add: final_segment_dotted_def)
  ultimately show ?thesis using nf d s f r c by (simp add: p)
qed

section \<open>A put on a busy container\<close>

lemma toh5_busy_then_free:
  assumes v: "auto_verify_write st" and c: "lookup fs archive = Some (H5 c)"
    and old: "map_of c key \<noteq> Some v" and ne: "v \<noteq> []"
  shows "(\<forall>i<m. h5_busy env (n + i)) \<Longrightarrow> \<not> h5_busy env (n + m) \<Longrightarrow>
         toh5 st env archive key v fs n =
           Some (Inr (), fs_put fs archive (H5 (AList.delete key c @ [(key, v)])))"
proof (induction m arbitrary: n)
  case 0
  then show ?case using toh5_free [OF c _ ne, of env n st key] by simp
next
  case (Suc m)
  from Suc.prems(1) have b: "h5_busy env n" by (metis add.right_neutral zero_less_Suc)
  have "\<forall>i<m. h5_busy env (Suc n + i)"
  proof (intro allI impI)
    fix i assume "i < m"
    then have "Suc i < Suc m" by simp
    with Suc.prems(1) have "h5_busy env (n + Suc i)" by blast
    then show "h5_busy env (Suc n + i)" by simp
  qed
  moreover from Suc.prems(2) have "\<not> h5_busy env (Suc n + m)" by simp
  ultimately have "toh5 st env archive key v fs (Suc n) =
           Some (Inr (), fs_put fs archive (H5 (AList.delete key c @ [(key, v)])))"
    by (rule Suc.IH)
  with toh5_retry [OF v c b old] show ?case by simp
qed

text \<open>\<open>_write_direct_to_h5\<close> once the directory of the container is made.\<close>

lemma write_direct_unfold:
  assumes c: "get_archive_key_name st fp = (archive, key)"
    and mk: "makedirs fs (butlast archive) True = Inr fs1"
  shows "write_direct_to_h5 st env fs fp v =
      (if distribuited st
       then (case toh5 st env archive key v fs1 0 of
               None \<Rightarrow> None
             | Some (r, fs2) \<Rightarrow> Some (Inr (), fs2))
       else toh5 st env archive key v fs1 0)"
    and "lookup fs1 archive = lookup fs archive"
    and "isdir fs1 (butlast archive)"
proof -
  have ane: "archive \<noteq> []" using archive_facts(1) [of st fp] c by simp
  then have sp: "fst (split_path archive) = butlast archive" by (simp add: split_path_nonempty)
  show "write_direct_to_h5 st env fs fp v =
      (if distribuited st
       then (case toh5 st env archive key v fs1 0 of
               None \<Rightarrow> None
             | Some (r, fs2) \<Rightarrow> Some (Inr (), fs2))
       else toh5 st env archive key v fs1 0)"
    by (simp add: write_direct_to_h5_def c sp mk)
  have nb: "\<not> prefix archive (butlast archive)"
  proof
    assume "prefix archive (butlast archive)"
    then have "length archive \<le> length (butlast archive)" by (rule prefix_length_le)
    with ane show False by (cases archive rule: rev_cases) auto
  qed
  show "lookup fs1 archive = lookup fs archive"
    using makedirs_lookup [OF mk, of archive] nb by auto
  show "isdir fs1 (butlast archive)" by (rule makedirs_isdir [OF mk])
qed

text \<open>
  C6 (as the code has it). \<open>_toh5\<close> catches the \<open>OSError\<close> of opening a
  busy container and passes over it; there is no bound on the rounds and no
  exception for a container that stays busy. With verification on, a put of
  bytes is repeated until \<open>_fromh5\<close> returns them: it returns normally with
  the entry stored at the first round that finds the container free, however
  many rounds the container was busy before; and a put outside the lock
  that returns normally has stored the value. With verification off there
  is one round and a put of bytes returns normally: the value is stored when
  that round opened the container, and nothing is stored when it did not.
  A put of no bytes whose first round opens the container raises the
  \<open>ValueError\<close> of \<open>create_dataset\<close>. Under the lock every exception of
  \<open>_toh5\<close> is passed over, so the put returns normally whenever it returns,
  also when nothing was stored.
\<close>

theorem C6_put_under_contention:
  assumes c: "get_archive_key_name st fp = (archive, key)"
    and mk: "makedirs fs (butlast archive) True = Inr fs1"
  shows "(auto_verify_write st \<and> \<not> distribuited st \<longrightarrow>
            (\<forall>fs'. write_direct_to_h5 st env fs fp v = Some (Inr (), fs') \<longrightarrow>
                   fromh5 fs' archive key = Inr v)) \<and>
         (auto_verify_write st \<and> v \<noteq> [] \<and> lookup fs archive = Some (H5 h) \<and>
          map_of h key \<noteq> Some v \<and> (\<forall>i<m. h5_busy env i) \<and> \<not> h5_busy env m \<longrightarrow>
            write_direct_to_h5 st env fs fp v =
              Some (Inr (), fs_put fs1 archive (H5 (AList.delete key h @ [(key, v)])))) \<and>
         (\<not> auto_verify_write st \<and> v \<noteq> [] \<longrightarrow>
            (can_append env fs archive \<longrightarrow>
               (\<exists>fs'. write_direct_to_h5 st env fs fp v = Some (Inr (), fs') \<and>
                      fromh5 fs' archive key = Inr v)) \<and>
            (\<not> can_append env fs archive \<longrightarrow>
               write_direct_to_h5 st env fs fp v = Some (Inr (), fs1))) \<and>
         (\<not> distribuited st \<and> v = [] \<and> can_append env fs archive \<longrightarrow>
            (\<exists>fs'. write_direct_to_h5 st env fs fp v = Some (Inl ValueError, fs'))) \<and>
         (distribuited st \<longrightarrow>
            (\<forall>r fs'. write_direct_to_h5 st env fs fp v = Some (r, fs') \<longrightarrow> r = Inr ()))"
proof -
  note u = write_direct_unfold [OF c mk]
  have A: "fromh5 fs' archive key = Inr v"
    if "auto_verify_write st" "\<not> distribuited st"
      "write_direct_to_h5 st env fs fp v = Some (Inr (), fs')" for fs'
    using write_direct_frame(2) [OF that(3)] that(1,2) c by simp
  have B: "write_direct_to_h5 st env fs fp v =
              Some (Inr (), fs_put fs1 archive (H5 (AList.delete key h @ [(key, v)])))"
    if v: "auto_verify_write st" and ne: "v \<noteq> []" and l: "lookup fs archive = Some (H5 h)"
      and old: "map_of h key \<noteq> Some v" and b: "\<forall>i<m. h5_busy env i" "\<not> h5_busy env m"
  proof -
    have l1: "lookup fs1 archive = Some (H5 h)" using u(2) l by simp
    have "toh5 st env archive key v fs1 0 =
        Some (Inr (), fs_put fs1 archive (H5 (AList.delete key h @ [(key, v)])))"
      using toh5_busy_then_free [OF v l1 old ne, of m env 0] b by simp
    then show ?thesis by (simp add: u(1))
  qed
  have C1: "\<exists>fs'. write_direct_to_h5 st env fs fp v = Some (Inr (), fs') \<and>
                 fromh5 fs' archive key = Inr v"
    if nv: "\<not> auto_verify_write st" and ne: "v \<noteq> []" and ok: "can_append env fs archive"
  proof -
    from ok u(2,3) obtain h' where o: "h5_open_append fs1 (h5_busy env 0) archive = Inr h'"
      by (auto simp: can_append_def h5_open_append_def split: option.splits node.splits)
    from toh5_first(1) [OF o ne, where st = st and key = key]
      toh5_first(2) [OF o ne, where key = key]
    show ?thesis by (auto simp: u(1))
  qed
  have C2: "write_direct_to_h5 st env fs fp v = Some (Inr (), fs1)"
    if nv: "\<not> auto_verify_write st" and no: "\<not> can_append env fs archive"
  proof -
    from no u(2) obtain e where "h5_open_append fs1 (h5_busy env 0) archive = Inl e"
      by (auto simp: can_append_def h5_open_append_def split: option.splits node.splits)
    from toh5_attempt_closed(1) [OF this, where key = key and v = v] toh5_unverified [OF nv, of env archive key v fs1 0]
    show ?thesis by (simp add: u(1))
  qed
  have E: "\<exists>fs'. write_direct_to_h5 st env fs fp v = Some (Inl ValueError, fs')"
    if nd: "\<not> distribuited st" and e: "v = []" and ok: "can_append env fs archive"
  proof -
    from ok u(2,3) obtain h' where o: "h5_open_append fs1 (h5_busy env 0) archive = Inr h'"
      by (auto simp: can_append_def h5_open_append_def split: option.splits node.splits)
    have "toh5 st env archive key v fs1 0 =
        Some (Inl ValueError, fs_put fs1 archive (H5 (AList.delete key h')))"
      using toh5_attempt_closed(3) [OF o e, where key = key]
      by (subst toh5.simps) simp
    with nd show ?thesis by (simp add: u(1))
  qed
  have D: "r = Inr ()"
    if "distribuited st" "write_direct_to_h5 st env fs fp v = Some (r, fs')" for r fs'
    using that by (auto simp: u(1) split: option.splits)
  from A B C1 C2 E D show ?thesis by blast
qed

theorem C6_put_under_contention_witness:
  "get_archive_key_name verify_store [''data'', ''arr'', ''0'', ''4'', ''6'', ''9'']
      = ([''data'', ''arr'', ''0'', ''4.h5''], ''6.9'') \<and>
   makedirs fs_shard (butlast [''data'', ''arr'', ''0'', ''4.h5'']) True = Inr fs_shard \<and>
   auto_verify_write verify_store \<and> \<not> distribuited verify_store \<and>
   lookup fs_shard [''data'', ''arr'', ''0'', ''4.h5''] = Some (H5 [(''6.7'', [1, 2])]) \<and>
   h5_busy busy_twice_env 0 \<and> h5_busy busy_twice_env 1 \<and> \<not> h5_busy busy_twice_env 2 \<and>
   write_direct_to_h5 verify_store busy_twice_env fs_shard
       [''data'', ''arr'', ''0'', ''4'', ''6'', ''9''] [3] =
     Some (Inr (), fs_put fs_shard [''data'', ''arr'', ''0'', ''4.h5'']
                     (H5 (AList.delete ''6.9'' [(''6.7'', [1, 2])] @ [(''6.9'', [3])]))) \<and>
   fromh5 (fs_put fs_shard [''data'', ''arr'', ''0'', ''4.h5'']
             (H5 (AList.delete ''6.9'' [(''6.7'', [1, 2])] @ [(''6.9'', [3])])))
      [''data'', ''arr'', ''0'', ''4.h5''] ''6.9'' = Inr [3] \<and>
   \<not> auto_verify_write example_store \<and>
   can_append quiet_env fs_shard [''data'', ''arr'', ''0'', ''4.h5''] \<and>
   (\<exists>fs'. write_direct_to_h5 example_store quiet_env fs_shard
             [''data'', ''arr'', ''0'', ''4'', ''6'', ''9''] [3] = Some (Inr (), fs') \<and>
          fromh5 fs' [''data'', ''arr'', ''0'', ''4.h5''] ''6.9'' = Inr [3]) \<and>
   \<not> can_append busy_env fs_shard [''data'', ''arr'', ''0'', ''4.h5''] \<and>
   write_direct_to_h5 example_store busy_env fs_shard
       [''data'', ''arr'', ''0'', ''4'', ''6'', ''9''] [3] = Some (Inr (), fs_shard) \<and>
   \<not> distribuited example_store \<and>
   (\<exists>fs'. write_direct_to_h5 example_store quiet_env fs_shard
             [''data'', ''arr'', ''0'', ''4'', ''6'', ''9''] [] = Some (Inl ValueError, fs')) \<and>
   distribuited lock_store \<and>
   write_direct_to_h5 lock_store quiet_env fs_blocked
       [''data'', ''arr'', ''0'', ''4'', ''6'', ''9''] [3] = Some (Inr (), fs_blocked)"
proof -
  have c1: "get_archive_key_name verify_store [''data'', ''arr'', ''0'', ''4'', ''6'', ''9'']
      = ([''data'', ''arr'', ''0'', ''4.h5''], ''6.9'')"
    by (simp add: get_archive_key_name_def verify_store_def example_store_def)
  have c2: "get_archive_key_name example_store [''data'', ''arr'', ''0'', ''4'', ''6'', ''9'']
      = ([''data'', ''arr'', ''0'', ''4.h5''], ''6.9'')"
    by (simp add: get_archive_key_name_def example_store_def)
  have c3: "get_archive_key_name lock_store [''data'', ''arr'', ''0'', ''4'', ''6'', ''9'']
      = ([''data'', ''arr'', ''0'', ''4.h5''], ''6.9'')"
    by (simp add: get_archive_key_name_def lock_store_def verify_store_def example_store_def)
  have mk: "makedirs fs_shard (butlast [''data'', ''arr'', ''0'', ''4.h5'']) True = Inr fs_shard"
    by (subst makedirs.simps)
       (simp add: mkdir_def exists_path_def isdir_def lookup_def fs_shard_def)
  have mkb: "makedirs fs_blocked (butlast [''data'', ''arr'', ''0'', ''4.h5'']) True = Inr fs_blocked"
    by (subst makedirs.simps)
       (simp add: mkdir_def exists_path_def isdir_def lookup_def fs_blocked_def)
  have v: "auto_verify_write verify_store" by (simp add: verify_store_def example_store_def)
  have nl: "\<not> distribuited verify_store" by (simp add: verify_store_def example_store_def)
  have nv: "\<not> auto_verify_write example_store" by (simp add: example_store_def)
  have dl: "distribuited lock_store" by (simp add: lock_store_def)
  have vl: "auto_verify_write lock_store"
    by (simp add: lock_store_def verify_store_def example_store_def)
  have l: "lookup fs_shard [''data'', ''arr'', ''0'', ''4.h5''] = Some (H5 [(''6.7'', [1, 2])])"
    by (simp add: lookup_def fs_shard_def)
  have old: "map_of [(''6.7'', [1, 2 :: 8 word])] ''6.9'' \<noteq> Some [3]" by simp
  have b: "\<forall>i<2. h5_busy busy_twice_env i" "\<not> h5_busy busy_twice_env 2"
    by (simp_all add: busy_twice_env_def quiet_env_def)
  have b': "h5_busy busy_twice_env 0 \<and> h5_busy busy_twice_env 1 \<and> \<not> h5_busy busy_twice_env 2"
    by (simp add: busy_twice_env_def quiet_env_def)
  have ca: "can_append quiet_env fs_shard [''data'', ''arr'', ''0'', ''4.h5'']"
    by (simp add: can_append_def l quiet_env_def)
  have nca: "\<not> can_append busy_env fs_shard [''data'', ''arr'', ''0'', ''4.h5'']"
    by (simp add: can_append_def l busy_env_def)
  note i1 = C6_put_under_contention [OF c1 mk, where v = "[3]" and h = "[(''6.7'', [1, 2])]"
      and m = 2 and env = busy_twice_env]
  from i1 v l old b have r1: "write_direct_to_h5 verify_store busy_twice_env fs_shard
       [''data'', ''arr'', ''0'', ''4'', ''6'', ''9''] [3] =
     Some (Inr (), fs_put fs_shard [''data'', ''arr'', ''0'', ''4.h5'']
                     (H5 (AList.delete ''6.9'' [(''6.7'', [1, 2])] @ [(''6.9'', [3])])))"
    by simp
  with i1 v nl have r2: "fromh5 (fs_put fs_shard [''data'', ''arr'', ''0'', ''4.h5'']
             (H5 (AList.delete ''6.9'' [(''6.7'', [1, 2])] @ [(''6.9'', [3])])))
      [''data'', ''arr'', ''0'', ''4.h5''] ''6.9'' = Inr [3]"
    by blast
  note i2 = C6_put_under_contention [OF c2 mk, where v = "[3]" and env = quiet_env]
  from i2 nv ca have r3: "\<exists>fs'. write_direct_to_h5 example_store quiet_env fs_shard
             [''data'', ''arr'', ''0'', ''4'', ''6'', ''9''] [3] = Some (Inr (), fs') \<and>
          fromh5 fs' [''data'', ''arr'', ''0'', ''4.h5''] ''6.9'' = Inr [3]"
    by simp
  note i3 = C6_put_under_contention [OF c2 mk, where v = "[3]" and env = busy_env]
  from i3 nv nca have r4: "write_direct_to_h5 example_store busy_env fs_shard
       [''data'', ''arr'', ''0'', ''4'', ''6'', ''9''] [3] = Some (Inr (), fs_shard)"
    by simp
  have ne: "\<not> distribuited example_store" by (simp add: example_store_def)
  note i5 = C6_put_under_contention [OF c2 mk, where v = "[]" and env = quiet_env]
  from i5 ne ca have r6: "\<exists>fs'. write_direct_to_h5 example_store quiet_env fs_shard
             [''data'', ''arr'', ''0'', ''4'', ''6'', ''9''] [] = Some (Inl ValueError, fs')"
    by simp
  have at: "toh5_attempt quiet_env [''data'', ''arr'', ''0'', ''4.h5''] ''6.9'' [3] fs_blocked 0
      = (Inr (), fs_blocked)"
    by (rule toh5_attempt_closed(1) [where e = "OSError EINVAL"])
       (simp add: h5_open_append_def lookup_def fs_blocked_def)
  have rd: "fromh5 fs_blocked [''data'', ''arr'', ''0'', ''4.h5''] ''6.9'' = Inl (OSError EINVAL)"
    by (simp add: fromh5_def h5_open_read_def lookup_def fs_blocked_def)
  have t: "toh5 lock_store quiet_env [''data'', ''arr'', ''0'', ''4.h5''] ''6.9'' [3] fs_blocked 0
      = Some (Inl (OSError EINVAL), fs_blocked)"
    by (subst toh5.simps) (simp add: at rd vl)
  note u = write_direct_unfold(1) [OF c3 mkb, where env = quiet_env and v = "[3]"]
  from u t dl obtain r0 where w0: "write_direct_to_h5 lock_store quiet_env fs_blocked
       [''data'', ''arr'', ''0'', ''4'', ''6'', ''9''] [3] = Some (r0, fs_blocked)"
    by simp
  note i4 = C6_put_under_contention [OF c3 mkb, where v = "[3]" and env = quiet_env]
  from i4 dl w0 have "r0 = Inr ()" by blast
  with w0 have r5: "write_direct_to_h5 lock_store quiet_env fs_blocked
       [''data'', ''arr'', ''0'', ''4'', ''6'', ''9''] [3] = Some (Inr (), fs_blocked)"
    by simp
  from c1 mk v nl l b' r1 r2 nv ca r3 nca r4 ne r6 dl r5 show ?thesis by blast
qed

theorem C6_put_under_contention_counterexample:
  "get_archive_key_name example_store [''data'', ''arr'', ''0'', ''4'', ''6'', ''9'']
      = ([''data'', ''arr'', ''0'', ''4.h5''], ''6.9'') \<and>
   write_direct_to_h5 example_store busy_env fs_shard [''data'', ''arr'', ''0'', ''4'', ''6'', ''9''] [3]
      = Some (Inr (), fs_shard) \<and>
   fromh5 fs_shard [''data'', ''arr'', ''0'', ''4.h5''] ''6.9'' = Inl KeyError \<and>
   auto_verify_write lock_store \<and>
   get_archive_key_name lock_store [''data'', ''arr'', ''0'', ''4'', ''6'', ''9'']
      = ([''data'', ''arr'', ''0'', ''4.h5''], ''6.9'') \<and>
   write_direct_to_h5 lock_store quiet_env fs_blocked [''data'', ''arr'', ''0'', ''4'', ''6'', ''9''] [3]
      = Some (Inr (), fs_blocked) \<and>
   fromh5 fs_blocked [''data'', ''arr'', ''0'', ''4.h5''] ''6.9'' = Inl (OSError EINVAL)"
proof -
  have c: "get_archive_key_name example_store [''data'', ''arr'', ''0'', ''4'', ''6'', ''9'']
      = ([''data'', ''arr'', ''0'', ''4.h5''], ''6.9'')"
    by (simp add: get_archive_key_name_def example_store_def)
  have l: "lookup fs_shard [''data'', ''arr'', ''0'', ''4.h5''] = Some (H5 [(''6.7'', [1, 2])])"
    by (simp add: lookup_def fs_shard_def)
  have mk: "makedirs fs_shard (butlast [''data'', ''arr'', ''0'', ''4.h5'']) True = Inr fs_shard"
    by (subst makedirs.simps)
       (simp add: mkdir_def exists_path_def isdir_def lookup_def fs_shard_def)
  have a: "toh5_attempt busy_env [''data'', ''arr'', ''0'', ''4.h5''] ''6.9'' [3] fs_shard 0
      = (Inr (), fs_shard)"
    by (rule toh5_attempt_busy [OF l]) (simp add: busy_env_def)
  have nv: "\<not> auto_verify_write example_store" by (simp add: example_store_def)
  have d: "\<not> distribuited example_store" by (simp add: example_store_def)
  have t: "toh5 example_store busy_env [''data'', ''arr'', ''0'', ''4.h5''] ''6.9'' [3] fs_shard 0
      = Some (Inr (), fs_shard)"
    using toh5_unverified [OF nv, of busy_env "[''data'', ''arr'', ''0'', ''4.h5'']"
        "''6.9''" "[3]" fs_shard 0]
    by (simp add: a)
  have w: "write_direct_to_h5 example_store busy_env fs_shard
      [''data'', ''arr'', ''0'', ''4'', ''6'', ''9''] [3] = Some (Inr (), fs_shard)"
    using write_direct_unfold(1) [OF c mk, where env = busy_env and v = "[3]"] t d by simp
  have r: "fromh5 fs_shard [''data'', ''arr'', ''0'', ''4.h5''] ''6.9'' = Inl KeyError"
    by (simp add: fromh5_H5 [OF l])
  have cl: "get_archive_key_name lock_store [''data'', ''arr'', ''0'', ''4'', ''6'', ''9'']
      = ([''data'', ''arr'', ''0'', ''4.h5''], ''6.9'')"
    by (simp add: get_archive_key_name_def lock_store_def verify_store_def example_store_def)
  have mkb: "makedirs fs_blocked (butlast [''data'', ''arr'', ''0'', ''4.h5'']) True = Inr fs_blocked"
    by (subst makedirs.simps)
       (simp add: mkdir_def exists_path_def isdir_def lookup_def fs_blocked_def)
  have vl: "auto_verify_write lock_store"
    by (simp add: lock_store_def verify_store_def example_store_def)
  have dl: "distribuited lock_store" by (simp add: lock_store_def)
  have at: "toh5_attempt quiet_env [''data'', ''arr'', ''0'', ''4.h5''] ''6.9'' [3] fs_blocked 0
      = (Inr (), fs_blocked)"
    by (rule toh5_attempt_closed(1) [where e = "OSError EINVAL"])
       (simp add: h5_open_append_def lookup_def fs_blocked_def)
  have rd: "fromh5 fs_blocked [''data'', ''arr'', ''0'', ''4.h5''] ''6.9'' = Inl (OSError EINVAL)"
    by (simp add: fromh5_def h5_open_read_def lookup_def fs_blocked_def)
  have tl: "toh5 lock_store quiet_env [''data'', ''arr'', ''0'', ''4.h5''] ''6.9'' [3] fs_blocked 0
      = Some (Inl (OSError EINVAL), fs_blocked)"
    by (subst toh5.simps) (simp add: at rd vl)
  have wl: "write_direct_to_h5 lock_store quiet_env fs_blocked
      [''data'', ''arr'', ''0'', ''4'', ''6'', ''9''] [3] = Some (Inr (), fs_blocked)"
    using write_direct_unfold(1) [OF cl mkb, where env = quiet_env and v = "[3]"] tl dl by simp
  from c w r vl cl wl rd show ?thesis by simp
qed

section \<open>Verification without a bound\<close>

text \<open>
  C7 (as the code has it). With verification on, the loops of \<open>_tofile\<close>
  and of \<open>_toh5\<close> have no maximum number of rounds and raise nothing on a
  mismatch: each leaves the loop at the first round that can read back the
  bytes, however late that round comes, and never returns when every round
  mismatches (a medium that never keeps the bytes, a container that stays
  busy). \<open>_tofile\<close> then returns normally. \<open>_toh5\<close> returns normally when
  the payload has bytes; for a payload of no bytes \<open>create_dataset\<close> raises
  \<open>ValueError\<close> at the first round that finds the container free, which is
  not an error of the verification.
\<close>

theorem C7_verify_loops_unbounded:
  assumes v: "auto_verify_write st"
  shows "(\<not> isdir fs fn \<and> isdir fs (butlast fn) \<longrightarrow>
           ((\<exists>m. medium env (n + m) a = a) \<longrightarrow>
              (\<exists>fs'. tofile st env a fn fs n = Some (Inr (), fs'))) \<and>
           ((\<forall>m. medium env (n + m) a \<noteq> a) \<longrightarrow> tofile st env a fn fs n = None)) \<and>
         (lookup fs archive = Some (H5 c) \<and> map_of c key \<noteq> Some b \<longrightarrow>
           ((\<exists>m. \<not> h5_busy env (n + m)) \<longrightarrow>
              (\<exists>fs'. toh5 st env archive key b fs n =
                 Some (if b = [] then Inl ValueError else Inr (), fs'))) \<and>
           ((\<forall>m. h5_busy env (n + m)) \<longrightarrow> toh5 st env archive key b fs n = None))"
proof (intro conjI impI)
  assume "\<not> isdir fs fn \<and> isdir fs (butlast fn)" "\<exists>m. medium env (n + m) a = a"
  then show "\<exists>fs'. tofile st env a fn fs n = Some (Inr (), fs')"
    using tofile_returns [OF v, of fs fn env n _ a] by blast
next
  assume "\<not> isdir fs fn \<and> isdir fs (butlast fn)" "\<forall>m. medium env (n + m) a \<noteq> a"
  then show "tofile st env a fn fs n = None"
    using tofile_forever [OF v, of fs fn env n a] by blast
next
  assume l: "lookup fs archive = Some (H5 c) \<and> map_of c key \<noteq> Some b"
    and "\<exists>m. \<not> h5_busy env (n + m)"
  then obtain m where f: "\<not> h5_busy env (n + m)" by blast
  from l have c: "lookup fs archive = Some (H5 c)" and old: "map_of c key \<noteq> Some b"
    by simp_all
  show "\<exists>fs'. toh5 st env archive key b fs n =
      Some (if b = [] then Inl ValueError else Inr (), fs')"
  proof (cases "b = []")
    case True
    with old have "map_of c key \<noteq> Some []" by simp
    from toh5_raises_empty [OF v c this f] True show ?thesis by simp
  next
    case False
    from toh5_returns [OF v c False f, where key = key] False show ?thesis by simp
  qed
next
  assume "lookup fs archive = Some (H5 c) \<and> map_of c key \<noteq> Some b" "\<forall>m. h5_busy env (n + m)"
  then show "toh5 st env archive key b fs n = None"
    using toh5_forever [OF v, of fs archive c key b env n] by blast
qed

theorem C7_verify_loops_unbounded_witness:
  "auto_verify_write verify_store \<and>
   (\<not> isdir fs_shard [''data'', ''arr'', ''x''] \<and> isdir fs_shard (butlast [''data'', ''arr'', ''x''])) \<and>
   (\<exists>m. medium lossy_twice_env (0 + m) [5] = [5]) \<and>
   (\<exists>fs'. tofile verify_store lossy_twice_env [5] [''data'', ''arr'', ''x''] fs_shard 0
            = Some (Inr (), fs')) \<and>
   (\<forall>m. medium lossy_env (0 + m) [5] \<noteq> [5]) \<and>
   tofile verify_store lossy_env [5] [''data'', ''arr'', ''x''] fs_shard 0 = None \<and>
   (lookup fs_shard [''data'', ''arr'', ''0'', ''4.h5''] = Some (H5 [(''6.7'', [1, 2])]) \<and>
    map_of [(''6.7'', [1, 2 :: 8 word])] ''6.9'' \<noteq> Some [3]) \<and>
   (\<exists>m. \<not> h5_busy busy_twice_env (0 + m)) \<and>
   (\<exists>fs'. toh5 verify_store busy_twice_env [''data'', ''arr'', ''0'', ''4.h5''] ''6.9'' [3] fs_shard 0
            = Some (Inr (), fs')) \<and>
   map_of [(''6.7'', [1, 2 :: 8 word])] ''6.9'' \<noteq> Some [] \<and>
   (\<exists>fs'. toh5 verify_store busy_twice_env [''data'', ''arr'', ''0'', ''4.h5''] ''6.9'' [] fs_shard 0
            = Some (Inl ValueError, fs')) \<and>
   (\<forall>m. h5_busy busy_env (0 + m)) \<and>
   toh5 verify_store busy_env [''data'', ''arr'', ''0'', ''4.h5''] ''6.9'' [3] fs_shard 0 = None"
proof -
  have v: "auto_verify_write verify_store" by (simp add: verify_store_def example_store_def)
  have w: "\<not> isdir fs_shard [''data'', ''arr'', ''x''] \<and>
      isdir fs_shard (butlast [''data'', ''arr'', ''x''])"
    by (simp add: isdir_def lookup_def fs_shard_def)
  have m1: "medium lossy_twice_env (0 + 2) [5] = [5]"
    by (simp add: lossy_twice_env_def quiet_env_def)
  then have m1': "\<exists>m. medium lossy_twice_env (0 + m) [5] = [5]" by blast
  have m2: "\<forall>m. medium lossy_env (0 + m) [5] \<noteq> [5]"
    by (simp add: lossy_env_def quiet_env_def)
  have l: "lookup fs_shard [''data'', ''arr'', ''0'', ''4.h5''] = Some (H5 [(''6.7'', [1, 2])]) \<and>
    map_of [(''6.7'', [1, 2 :: 8 word])] ''6.9'' \<noteq> Some [3]"
    by (simp add: lookup_def fs_shard_def)
  have b1: "\<not> h5_busy busy_twice_env (0 + 2)" by (simp add: busy_twice_env_def quiet_env_def)
  then have b1': "\<exists>m. \<not> h5_busy busy_twice_env (0 + m)" by blast
  have b2: "\<forall>m. h5_busy busy_env (0 + m)" by (simp add: busy_env_def quiet_env_def)
  note i1 = C7_verify_loops_unbounded [OF v, of fs_shard "[''data'', ''arr'', ''x'']"
      lossy_twice_env 0 "[5]" "[''data'', ''arr'', ''0'', ''4.h5'']"
      "[(''6.7'', [1, 2])]" "''6.9''" "[3]"]
  note i2 = C7_verify_loops_unbounded [OF v, of fs_shard "[''data'', ''arr'', ''x'']"
      lossy_env 0 "[5]" "[''data'', ''arr'', ''0'', ''4.h5'']"
      "[(''6.7'', [1, 2])]" "''6.9''" "[3]"]
  note i3 = C7_verify_loops_unbounded [OF v, of fs_shard "[''data'', ''arr'', ''x'']"
      busy_twice_env 0 "[5]" "[''data'', ''arr'', ''0'', ''4.h5'']"
      "[(''6.7'', [1, 2])]" "''6.9''" "[3]"]
  note i4 = C7_verify_loops_unbounded [OF v, of fs_shard "[''data'', ''arr'', ''x'']"
      busy_env 0 "[5]" "[''data'', ''arr'', ''0'', ''4.h5'']"
      "[(''6.7'', [1, 2])]" "''6.9''" "[3]"]
  from i1 w m1' have r1: "\<exists>fs'. tofile verify_store lossy_twice_env [5] [''data'', ''arr'', ''x'']
      fs_shard 0 = Some (Inr (), fs')" by blast
  from i2 w m2 have r2: "tofile verify_store lossy_env [5] [''data'', ''arr'', ''x''] fs_shard 0 = None"
    by blast
  from i3 l b1' have r3: "\<exists>fs'. toh5 verify_store busy_twice_env [''data'', ''arr'', ''0'', ''4.h5'']
      ''6.9'' [3] fs_shard 0 = Some (Inr (), fs')" by simp
  have l0: "lookup fs_shard [''data'', ''arr'', ''0'', ''4.h5''] = Some (H5 [(''6.7'', [1, 2])]) \<and>
    map_of [(''6.7'', [1, 2 :: 8 word])] ''6.9'' \<noteq> Some []"
    by (simp add: lookup_def fs_shard_def)
  note i5 = C7_verify_loops_unbounded [OF v, of fs_shard "[''data'', ''arr'', ''x'']"
      busy_twice_env 0 "[5]" "[''data'', ''arr'', ''0'', ''4.h5'']"
      "[(''6.7'', [1, 2])]" "''6.9''" "[]"]
  from i5 l0 b1' have r5: "\<exists>fs'. toh5 verify_store busy_twice_env [''data'', ''arr'', ''0'', ''4.h5'']
      ''6.9'' [] fs_shard 0 = Some (Inl ValueError, fs')" by simp
  from i4 l b2 have r4: "toh5 verify_store busy_env [''data'', ''arr'', ''0'', ''4.h5''] ''6.9'' [3]
      fs_shard 0 = None" by blast
  from l0 have l0': "map_of [(''6.7'', [1, 2 :: 8 word])] ''6.9'' \<noteq> Some []" by simp
  from v w m1' r1 m2 r2 l b1' r3 l0' r5 b2 r4 show ?thesis by blast
qed

theorem C7_verify_loops_unbounded_counterexample:
  "auto_verify_write verify_store \<and>
   tofile verify_store lossy_env [5] [''data'', ''arr'', ''x''] fs_shard 0 = None \<and>
   toh5 verify_store busy_env [''data'', ''arr'', ''0'', ''4.h5''] ''6.9'' [3] fs_shard 0 = None"
proof -
  have v: "auto_verify_write verify_store" by (simp add: verify_store_def example_store_def)
  have "tofile verify_store lossy_env [5] [''data'', ''arr'', ''x''] fs_shard 0 = None"
    by (rule tofile_forever [OF v])
       (simp_all add: isdir_def lookup_def fs_shard_def lossy_env_def quiet_env_def)
  moreover have "toh5 verify_store busy_env [''data'', ''arr'', ''0'', ''4.h5''] ''6.9'' [3] fs_shard 0 = None"
    by (rule toh5_forever [OF v, where c = "[(''6.7'', [1, 2])]"])
       (simp_all add: lookup_def fs_shard_def busy_env_def quiet_env_def)
  ultimately show ?thesis using v by simp
qed

section \<open>Deleting a key\<close>

text \<open>
  C4. The \<open>KeyError\<close> of \<open>__delitem__\<close> hangs on the container file
  alone. With the chunk \<open>arr/0/1\<close> as a file and no container
  \<open>arr.h5\<close>, the file is removed and \<open>KeyError\<close> is raised all the
  same; with the container \<open>arr/0/4.h5\<close> there, deleting
  \<open>arr/0/4/6/9\<close>, which is neither a file nor an entry, returns normally.
\<close>

theorem C4_delete_signals_not_found:
  "isfile fs_nested [''data'', ''arr'', ''0'', ''1''] \<and>
   delitem example_store fs_nested [''arr'', ''0'', ''1''] =
     (Inl KeyError, [([''data''], Dir), ([''data'', ''arr''], Dir), ([''data'', ''arr'', ''0''], Dir)]) \<and>
   \<not> isfile fs_shard [''data'', ''arr'', ''0'', ''4'', ''6'', ''9''] \<and>
   fromh5 fs_shard [''data'', ''arr'', ''0'', ''4.h5''] ''6.9'' = Inl KeyError \<and>
   delitem example_store fs_shard [''arr'', ''0'', ''4'', ''6'', ''9''] = (Inr (), fs_shard)"
proof -
  have c1: "get_archive_key_name example_store [''data'', ''arr'', ''0'', ''1'']
      = ([''data'', ''arr.h5''], ''0.1'')"
    by (simp add: get_archive_key_name_def example_store_def)
  have c2: "get_archive_key_name example_store [''data'', ''arr'', ''0'', ''4'', ''6'', ''9'']
      = ([''data'', ''arr'', ''0'', ''4.h5''], ''6.9'')"
    by (simp add: get_archive_key_name_def example_store_def)
  have f1: "isfile fs_nested [''data'', ''arr'', ''0'', ''1'']"
    by (simp add: isfile_def lookup_def fs_nested_def)
  have p1: "join (path example_store) (normalize_key example_store [''arr'', ''0'', ''1''])
      = [''data'', ''arr'', ''0'', ''1'']"
    by (simp add: join_def normalize_key_def example_store_def)
  have e1: "fs_del fs_nested [''data'', ''arr'', ''0'', ''1''] =
      [([''data''], Dir), ([''data'', ''arr''], Dir), ([''data'', ''arr'', ''0''], Dir)]"
    by (simp add: fs_del_def fs_nested_def)
  have a1: "\<not> isfile [([''data''], Dir), ([''data'', ''arr''], Dir), ([''data'', ''arr'', ''0''], Dir)]
      [''data'', ''arr.h5'']"
    by (simp add: isfile_def lookup_def)
  have d1: "delitem example_store fs_nested [''arr'', ''0'', ''1''] =
     (Inl KeyError, [([''data''], Dir), ([''data'', ''arr''], Dir), ([''data'', ''arr'', ''0''], Dir)])"
    using f1 a1 by (simp add: delitem_def Let_def p1 c1 e1)
  have f2: "\<not> isfile fs_shard [''data'', ''arr'', ''0'', ''4'', ''6'', ''9'']"
    by (simp add: isfile_def lookup_def fs_shard_def)
  have nd: "\<not> isdir fs_shard [''data'', ''arr'', ''0'', ''4'', ''6'', ''9'']"
    by (simp add: isdir_def lookup_def fs_shard_def)
  have l: "lookup fs_shard [''data'', ''arr'', ''0'', ''4.h5''] = Some (H5 [(''6.7'', [1, 2])])"
    by (simp add: lookup_def fs_shard_def)
  have r: "fromh5 fs_shard [''data'', ''arr'', ''0'', ''4.h5''] ''6.9'' = Inl KeyError"
    by (simp add: fromh5_def h5_open_read_def l)
  have p2: "join (path example_store) (normalize_key example_store [''arr'', ''0'', ''4'', ''6'', ''9''])
      = [''data'', ''arr'', ''0'', ''4'', ''6'', ''9'']"
    by (simp add: join_def normalize_key_def example_store_def)
  have a2: "isfile fs_shard [''data'', ''arr'', ''0'', ''4.h5'']"
    by (simp add: isfile_def l)
  have o2: "h5_open_append fs_shard False [''data'', ''arr'', ''0'', ''4.h5'']
      = Inr [(''6.7'', [1, 2])]"
    by (simp add: h5_open_append_def l)
  have e2: "fs_put fs_shard [''data'', ''arr'', ''0'', ''4.h5'']
      (H5 [(''6.7'', [1, 2])]) = fs_shard"
    by (simp add: fs_put_def fs_shard_def)
  have d2: "delitem example_store fs_shard [''arr'', ''0'', ''4'', ''6'', ''9''] = (Inr (), fs_shard)"
    using f2 nd a2 by (simp add: delitem_def Let_def p2 c2 o2 e2)
  from f1 d1 f2 r d2 show ?thesis by simp
qed

section \<open>The size of a path\<close>

lemma clearjunk_keys: "set (map fst (AList.clearjunk fs)) = dom (map_of fs)"
  by (metis dom_clearjunk dom_map_of_conv_image_fst set_map)

lemma scandir_files:
  "set (filter (isfile fs) (scandir fs d)) = {q. q \<noteq> [] \<and> butlast q = d \<and> isfile fs q}"
proof -
  have "q \<in> dom (map_of fs)" if "q \<noteq> []" "isfile fs q" for q
    using that by (auto simp: isfile_def lookup_def split: option.splits)
  then show ?thesis by (auto simp: scandir_def clearjunk_keys simp del: set_map)
qed

lemma scandir_distinct: "distinct (filter (isfile fs) (scandir fs d))"
  by (simp add: scandir_def distinct_clearjunk)

lemma getsize_dir_sum:
  "sum_list (map (st_size env fs) (filter (isfile fs) (scandir fs d))) =
     (\<Sum>q \<in> {q. q \<noteq> [] \<and> butlast q = d \<and> isfile fs q}. st_size env fs q)"
proof -
  have "sum_list (map (st_size env fs) (filter (isfile fs) (scandir fs d))) =
      sum (st_size env fs) (set (filter (isfile fs) (scandir fs d)))"
    by (rule sum_list_distinct_conv_sum_set [OF scandir_distinct])
  then show ?thesis unfolding scandir_files .
qed

text \<open>
  C9 (as the code has it). \<open>getsize\<close> of a path that names a file is the
  number of bytes of the file (for a container file, of the file as a
  whole); of a path that names a directory, the sum of the sizes of the
  files that are entries of that directory itself, with nothing counted for
  its subdirectories; of a path that names nothing, zero. In the tree
  \<open>fs_sizes\<close> the array directory has size 3 while the files beneath it
  have 5 bytes.
\<close>

theorem C9_getsize:
  assumes "normalize_storage_path p = Inr sp"
  shows "(lookup fs (if sp \<noteq> [] then join (path st) sp else path st) = Some (File b) \<longrightarrow>
            getsize st env fs p = Inr (length b)) \<and>
         (lookup fs (if sp \<noteq> [] then join (path st) sp else path st) = Some (H5 c) \<longrightarrow>
            getsize st env fs p = Inr (length (h5_image env c))) \<and>
         (isdir fs (if sp \<noteq> [] then join (path st) sp else path st) \<longrightarrow>
            getsize st env fs p =
              Inr (\<Sum>q \<in> {q. q \<noteq> [] \<and>
                             butlast q = (if sp \<noteq> [] then join (path st) sp else path st) \<and>
                             isfile fs q}. st_size env fs q)) \<and>
         (lookup fs (if sp \<noteq> [] then join (path st) sp else path st) = None \<longrightarrow>
            getsize st env fs p = Inr 0)"
proof -
  define fp where "fp = (if sp \<noteq> [] then join (path st) sp else path st)"
  have g: "getsize st env fs p =
      (if isfile fs fp then Inr (st_size env fs fp)
       else if isdir fs fp
       then Inr (sum_list (map (st_size env fs) (filter (isfile fs) (scandir fs fp))))
       else Inr 0)"
    using assms by (simp add: getsize_def Let_def fp_def)
  have "lookup fs fp = Some (File b) \<longrightarrow> getsize st env fs p = Inr (length b)"
    by (simp add: g isfile_def st_size_def)
  moreover have "lookup fs fp = Some (H5 c) \<longrightarrow> getsize st env fs p = Inr (length (h5_image env c))"
    by (simp add: g isfile_def st_size_def)
  moreover have "isdir fs fp \<longrightarrow> getsize st env fs p =
      Inr (\<Sum>q \<in> {q. q \<noteq> [] \<and> butlast q = fp \<and> isfile fs q}. st_size env fs q)"
    by (simp add: g isfile_def isdir_def getsize_dir_sum)
  moreover have "lookup fs fp = None \<longrightarrow> getsize st env fs p = Inr 0"
    by (simp add: g isfile_def isdir_def)
  ultimately show ?thesis unfolding fp_def by blast
qed

theorem C9_getsize_counterexample:
  "isdir fs_sizes (join (path example_store) [''arr'']) \<and>
   getsize example_store quiet_env fs_sizes [''arr''] = Inr 3 \<and>
   recursive_size quiet_env fs_sizes (join (path example_store) [''arr'']) = 5"
proof -
  have p: "join (path example_store) [''arr''] = [''data'', ''arr'']"
    by (simp add: join_def example_store_def)
  have d: "isdir fs_sizes [''data'', ''arr'']" by (simp add: isdir_def lookup_def fs_sizes_def)
  have nf: "\<not> isfile fs_sizes [''data'', ''arr'']" by (simp add: isfile_def lookup_def fs_sizes_def)
  have cj: "map fst (AList.clearjunk fs_sizes) =
      [[''data''], [''data'', ''arr''], [''data'', ''arr'', ''.zarray''], [''data'', ''arr'', ''0''],
       [''data'', ''arr'', ''0'', ''1'']]"
    by (simp add: fs_sizes_def AList.delete_eq)
  have sc: "filter (isfile fs_sizes) (scandir fs_sizes [''data'', ''arr'']) = [[''data'', ''arr'', ''.zarray'']]"
    by (simp add: scandir_def cj) (simp add: isfile_def lookup_def fs_sizes_def)
  have s1: "st_size quiet_env fs_sizes [''data'', ''arr'', ''.zarray''] = 3"
    by (simp add: st_size_def lookup_def fs_sizes_def)
  have s2: "st_size quiet_env fs_sizes [''data'', ''arr'', ''0'', ''1''] = 2"
    by (simp add: st_size_def lookup_def fs_sizes_def)
  have g: "getsize example_store quiet_env fs_sizes [''arr''] = Inr 3"
    using d nf by (simp add: getsize_def normalize_storage_path_def Let_def p sc s1)
  have rf: "filter (\<lambda>q. strict_prefix [''data'', ''arr''] q \<and> isfile fs_sizes q)
        (map fst (AList.clearjunk fs_sizes)) =
      [[''data'', ''arr'', ''.zarray''], [''data'', ''arr'', ''0'', ''1'']]"
    by (simp add: cj strict_prefix_def) (simp add: isfile_def lookup_def fs_sizes_def)
  have r: "recursive_size quiet_env fs_sizes [''data'', ''arr''] = 5"
    by (simp add: recursive_size_def rf s1 s2)
  from d g r show ?thesis by (simp add: p)
qed

theorem C9_getsize_witness:
  "normalize_storage_path [''arr''] = Inr [''arr''] \<and>
   isdir fs_sizes [''data'', ''arr''] \<and>
   getsize example_store quiet_env fs_sizes [''arr''] =
     Inr (\<Sum>q \<in> {q. q \<noteq> [] \<and> butlast q = [''data'', ''arr''] \<and> isfile fs_sizes q}.
            st_size quiet_env fs_sizes q) \<and>
   normalize_storage_path [''arr'', ''.zarray''] = Inr [''arr'', ''.zarray''] \<and>
   lookup fs_sizes [''data'', ''arr'', ''.zarray''] = Some (File [1, 2, 3]) \<and>
   getsize example_store quiet_env fs_sizes [''arr'', ''.zarray''] = Inr 3 \<and>
   normalize_storage_path [''none''] = Inr [''none''] \<and>
   lookup fs_sizes [''data'', ''none''] = None \<and>
   getsize example_store quiet_env fs_sizes [''none''] = Inr 0"
proof -
  have n1: "normalize_storage_path [''arr''] = Inr [''arr'']"
    by (simp add: normalize_storage_path_def)
  have n2: "normalize_storage_path [''arr'', ''.zarray''] = Inr [''arr'', ''.zarray'']"
    by (simp add: normalize_storage_path_def)
  have n3: "normalize_storage_path [''none''] = Inr [''none'']"
    by (simp add: normalize_storage_path_def)
  have p: "path example_store = [''data'']" by (simp add: example_store_def)
  have d: "isdir fs_sizes [''data'', ''arr'']" by (simp add: isdir_def lookup_def fs_sizes_def)
  have l2: "lookup fs_sizes [''data'', ''arr'', ''.zarray''] = Some (File [1, 2, 3])"
    by (simp add: lookup_def fs_sizes_def)
  have l3: "lookup fs_sizes [''data'', ''none''] = None"
    by (simp add: lookup_def fs_sizes_def)
  from C9_getsize [OF n1, of fs_sizes example_store _ quiet_env] d
  have r1: "getsize example_store quiet_env fs_sizes [''arr''] =
     Inr (\<Sum>q \<in> {q. q \<noteq> [] \<and> butlast q = [''data'', ''arr''] \<and> isfile fs_sizes q}.
            st_size quiet_env fs_sizes q)"
    by (simp add: p join_def)
  from C9_getsize [OF n2, of fs_sizes example_store "[1, 2, 3]" quiet_env] l2
  have r2: "getsize example_store quiet_env fs_sizes [''arr'', ''.zarray''] = Inr 3"
    by (simp add: p join_def)
  from C9_getsize [OF n3, of fs_sizes example_store _ quiet_env] l3
  have r3: "getsize example_store quiet_env fs_sizes [''none''] = Inr 0"
    by (simp add: p join_def)
  from n1 d r1 n2 l2 r2 n3 l3 r3 show ?thesis by blast
qed

section \<open>Running the consolidation twice\<close>

text \<open>
  On an array of rank five the second run finds nothing to move, and the
  keys are those of the files before the first run.
\<close>

lemma consolidate_rank5_twice:
  "consolidate example_store quiet_env fs_rank5 = (Inr (), fs_rank5_once) \<and>
   get_unique_archive_locations example_store fs_rank5_once = [] \<and>
   consolidate example_store quiet_env fs_rank5_once = (Inr (), fs_rank5_once) \<and>
   keys example_store fs_rank5_once = keys example_store fs_rank5"
proof -
  have a: "consolidate example_store quiet_env fs_rank5 = (Inr (), fs_rank5_once)"
    by code_simp
  have b: "get_unique_archive_locations example_store fs_rank5_once = []"
    by code_simp
  have c: "consolidate example_store quiet_env fs_rank5_once = (Inr (), fs_rank5_once)"
    by code_simp
  have d: "keys example_store fs_rank5_once = keys example_store fs_rank5"
    by code_simp
  from a b c d show ?thesis by blast
qed

text \<open>
  A chunk file of no bytes is not moved: \<open>create_dataset\<close> raises
  \<open>ValueError\<close>, the run ends with it, the container is left without the
  entry and the file stays where it was.
\<close>

lemma consolidate_chunk_of_no_bytes:
  "fst (consolidate example_store quiet_env fs_rank5_empty) = Inl ValueError \<and>
   lookup (snd (consolidate example_store quiet_env fs_rank5_empty))
     [''data'', ''arr'', ''0'', ''0'', ''4'', ''6'', ''7''] = Some (File []) \<and>
   lookup (snd (consolidate example_store quiet_env fs_rank5_empty))
     [''data'', ''arr'', ''0'', ''0'', ''4.h5''] = Some (H5 [])"
proof -
  have a: "fst (consolidate example_store quiet_env fs_rank5_empty) = Inl ValueError"
    by code_simp
  have b: "lookup (snd (consolidate example_store quiet_env fs_rank5_empty))
     [''data'', ''arr'', ''0'', ''0'', ''4'', ''6'', ''7''] = Some (File [])"
    by code_simp
  have c: "lookup (snd (consolidate example_store quiet_env fs_rank5_empty))
     [''data'', ''arr'', ''0'', ''0'', ''4.h5''] = Some (H5 [])"
    by code_simp
  from a b c show ?thesis by blast
qed

text \<open>
  C8. On an array of rank six with the default depth of three, the first run
  of \<open>consolidate\<close> moves the chunk \<open>arr/0/0/0/4/6/7\<close> into the container
  \<open>arr/0/0/0/4.h5\<close>. That container lies four levels beneath the array
  root and has no \<open>.z\<close> in its name, so the scan of the second run takes it
  for a chunk file: the second run moves the container file itself into a
  new container \<open>arr/0/0.h5\<close> as the entry \<open>0.4.h5\<close> and removes it.
  The keys of the store change and the chunk can no longer be read.
\<close>

theorem C8_second_run_migrates_container:
  "consolidate example_store quiet_env fs_rank6 = (Inr (), fs_rank6_once) \<and>
   keys example_store fs_rank6_once =
     Inr [[''arr'', ''.zarray''], [''arr'', ''0'', ''0'', ''0'', ''4'', ''6'', ''7'']] \<and>
   getitem example_store quiet_env fs_rank6_once [''arr'', ''0'', ''0'', ''0'', ''4'', ''6'', ''7'']
     = Inr [9] \<and>
   get_unique_archive_locations example_store fs_rank6_once
     = [[''data'', ''arr'', ''0'', ''0.h5'']] \<and>
   consolidate example_store quiet_env fs_rank6_once = (Inr (), fs_rank6_twice) \<and>
   keys example_store fs_rank6_twice =
     Inr [[''arr'', ''.zarray''], [''arr'', ''0'', ''0'', ''0'', ''4'', ''h5'']] \<and>
   getitem example_store quiet_env fs_rank6_twice [''arr'', ''0'', ''0'', ''0'', ''4'', ''6'', ''7'']
     = Inl KeyError"
proof -
  have a: "consolidate example_store quiet_env fs_rank6 = (Inr (), fs_rank6_once)"
    by code_simp
  have b: "keys example_store fs_rank6_once =
     Inr [[''arr'', ''.zarray''], [''arr'', ''0'', ''0'', ''0'', ''4'', ''6'', ''7'']]"
    by code_simp
  have c: "getitem example_store quiet_env fs_rank6_once
      [''arr'', ''0'', ''0'', ''0'', ''4'', ''6'', ''7''] = Inr [9]"
    by code_simp
  have d: "get_unique_archive_locations example_store fs_rank6_once
     = [[''data'', ''arr'', ''0'', ''0.h5'']]"
    by code_simp
  have e: "consolidate example_store quiet_env fs_rank6_once = (Inr (), fs_rank6_twice)"
    by code_simp
  have f: "keys example_store fs_rank6_twice =
     Inr [[''arr'', ''.zarray''], [''arr'', ''0'', ''0'', ''0'', ''4'', ''h5'']]"
    by code_simp
  have g: "getitem example_store quiet_env fs_rank6_twice
      [''arr'', ''0'', ''0'', ''0'', ''4'', ''6'', ''7''] = Inl KeyError"
    by code_simp
  from a b c d e f g show ?thesis by blast
qed

end
